theory Spec2Isabelle
  imports Main "HOL-Library.Word" "HOL-Library.AList"
begin

section \<open>JavaScript numbers used by the decoder\<close>

text \<open>
  The decoder of \<^verbatim>\<open>ol/format/MVT.js\<close> works on JavaScript numbers. Counts, offsets and
  decoded varints are modelled as \<open>nat\<close> and \<open>int\<close> (exact below \<open>2 ^ 53\<close>; the rounding
  of doubles above that is outside the model). The two bitwise operators the source
  applies to a decoded varint, \<^verbatim>\<open>v & 0x7\<close> and \<^verbatim>\<open>v >> 3\<close>, first convert their operand
  to a signed 32-bit integer; that conversion is written out.
\<close>

definition toInt32 :: "nat \<Rightarrow> int" where
  "toInt32 n = (let m = int (n mod 2 ^ 32) in if 2 ^ 31 \<le> m then m - 2 ^ 32 else m)"

definition js_and7 :: "nat \<Rightarrow> nat" where
  \<comment> \<open>\<^verbatim>\<open>v & 0x7\<close>: the low three bits of the 32-bit value\<close>
  "js_and7 n = nat (toInt32 n mod 8)"

definition js_sar3 :: "nat \<Rightarrow> int" where
  \<comment> \<open>\<^verbatim>\<open>v >> 3\<close>: arithmetic shift of the 32-bit value\<close>
  "js_sar3 n = toInt32 n div 8"

section \<open>The PBF reader\<close>

text \<open>
  Modelled from the spec: the reader object \<^verbatim>\<open>pbf\<close> (the imported package \<^verbatim>\<open>pbf\<close>) is not
  among the sources. The spec calls it a pull-parser over a byte buffer with an internal
  cursor, protocol-buffer wire compatible, reading varints and zig-zag varints. A reader
  is the buffer and the cursor; a varint is at most ten bytes of seven payload bits,
  least significant group first, the last byte having its high bit clear; a read that
  runs off the buffer or finds no last byte within ten bytes throws.
\<close>

datatype error = AssertionError nat | PbfError

abbreviation InvalidGeometryCommand :: error where
  "InvalidGeometryCommand \<equiv> AssertionError 59"

type_synonym bytes = "8 word list"

record pbf =
  buf :: bytes
  pos :: nat

fun varintAt :: "nat \<Rightarrow> bytes \<Rightarrow> nat \<Rightarrow> (nat \<times> nat) option" where
  "varintAt 0 bs p = None"
| "varintAt (Suc k) bs p =
     (if p < length bs then
        (let b = unat (bs ! p) in
         if b < 128 then Some (b, p + 1)
         else (case varintAt k bs (p + 1) of
                 None \<Rightarrow> None
               | Some (v, q) \<Rightarrow> Some (b mod 128 + 128 * v, q)))
      else None)"

definition readVarint :: "pbf \<Rightarrow> error + nat \<times> pbf" where
  "readVarint p =
     (case varintAt 10 (buf p) (pos p) of
        None \<Rightarrow> Inl PbfError
      | Some (v, q) \<Rightarrow> Inr (v mod 2 ^ 64, p\<lparr>pos := q\<rparr>))"

definition zigzag :: "nat \<Rightarrow> int" where
  \<comment> \<open>\<^verbatim>\<open>num % 2 === 1 ? (num + 1) / -2 : num / 2\<close>\<close>
  "zigzag num = (if num mod 2 = 1 then - (int ((num + 1) div 2)) else int (num div 2))"

definition readSVarint :: "pbf \<Rightarrow> error + int \<times> pbf" where
  "readSVarint p =
     (case readVarint p of
        Inl e \<Rightarrow> Inl e
      | Inr (num, p') \<Rightarrow> Inr (zigzag num, p'))"

section \<open>readRawGeometry_\<close>

text \<open>
  The local variables of \<^verbatim>\<open>readRawGeometry_\<close> (MVT.js, lines 110 to 163) and the two arrays
  it fills. The fields \<open>len\<close>, \<open>cx\<close> and \<open>cy\<close> are the source's \<^verbatim>\<open>length\<close>, \<^verbatim>\<open>x\<close> and \<^verbatim>\<open>y\<close>;
  \<open>rd\<close> is the reader.
\<close>

record gstate =
  rd :: pbf
  cmd :: nat
  len :: int
  cx :: int
  cy :: int
  coordsLen :: nat
  currentEnd :: nat
  flatCoordinates :: "int list"
  ends :: "nat list"

text \<open>Lines 122 to 126: a new command header is read when the repeat count is zero.\<close>

definition readCommand :: "gstate \<Rightarrow> error + gstate" where
  "readCommand s =
     (if len s = 0 then
        (case readVarint (rd s) of
           Inl e \<Rightarrow> Inl e
         | Inr (cmdLen, p) \<Rightarrow> Inr (s\<lparr>rd := p, cmd := js_and7 cmdLen, len := js_sar3 cmdLen\<rparr>))
      else Inr s)"

text \<open>Lines 130 to 142: MoveTo and LineTo.\<close>

definition moveOrLineTo :: "gstate \<Rightarrow> error + gstate" where
  "moveOrLineTo s =
     (case readSVarint (rd s) of
        Inl e \<Rightarrow> Inl e
      | Inr (dx, p1) \<Rightarrow>
          (case readSVarint p1 of
             Inl e \<Rightarrow> Inl e
           | Inr (dy, p2) \<Rightarrow>
               (let s1 = s\<lparr>rd := p2, cx := cx s + dx, cy := cy s + dy\<rparr>;
                    s2 = (if cmd s1 = 1 \<and> currentEnd s1 < coordsLen s1
                          then s1\<lparr>ends := ends s1 @ [coordsLen s1], currentEnd := coordsLen s1\<rparr>
                          else s1)
                in Inr (s2\<lparr>flatCoordinates := flatCoordinates s2 @ [cx s2, cy s2],
                            coordsLen := coordsLen s2 + 2\<rparr>))))"

text \<open>Lines 144 to 151: ClosePath.\<close>

definition closePath :: "gstate \<Rightarrow> gstate" where
  "closePath s =
     (if currentEnd s < coordsLen s
      then s\<lparr>flatCoordinates := flatCoordinates s @
                 [flatCoordinates s ! currentEnd s, flatCoordinates s ! (currentEnd s + 1)],
              coordsLen := coordsLen s + 2\<rparr>
      else s)"

text \<open>One pass through the body of the while loop (lines 122 to 155).\<close>

definition geomStep :: "gstate \<Rightarrow> error + gstate" where
  "geomStep s =
     (case readCommand s of
        Inl e \<Rightarrow> Inl e
      | Inr s1 \<Rightarrow>
          (let s2 = s1\<lparr>len := len s1 - 1\<rparr> in
           if cmd s2 = 1 \<or> cmd s2 = 2 then moveOrLineTo s2
           else if cmd s2 = 7 then Inr (closePath s2)
           else Inl InvalidGeometryCommand))"

text \<open>
  The while loop. A ClosePath header with repeat count zero leaves \<^verbatim>\<open>length\<close> negative and
  reads nothing more, so the loop need not end: not returning is the value \<open>None\<close>.
\<close>

partial_function (option) geomLoop :: "nat \<Rightarrow> gstate \<Rightarrow> (error + gstate) option" where
  "geomLoop end s =
     (if pos (rd s) < end then
        (case geomStep s of
           Inl e \<Rightarrow> Some (Inl e)
         | Inr s' \<Rightarrow> geomLoop end s')
      else Some (Inr s))"

text \<open>Lines 158 to 161: the end of a sub-path still open is recorded.\<close>

definition flushEnd :: "gstate \<Rightarrow> gstate" where
  "flushEnd s =
     (if currentEnd s < coordsLen s
      then s\<lparr>ends := ends s @ [coordsLen s], currentEnd := coordsLen s\<rparr>
      else s)"

text \<open>
  \<^verbatim>\<open>readRawGeometry_(pbf, feature, flatCoordinates, ends)\<close> (named here without the
  trailing underscore). The raw feature's \<^verbatim>\<open>geometry\<close> is the offset stored by the feature reader, \<open>None\<close> when the record had no geometry
  field (the cursor is then \<^verbatim>\<open>undefined\<close> and the first read throws).
\<close>

definition geomInit :: "pbf \<Rightarrow> int list \<Rightarrow> nat list \<Rightarrow> gstate" where
  "geomInit p fc es =
     \<lparr>rd = p, cmd = 1, len = 0, cx = 0, cy = 0, coordsLen = 0, currentEnd = 0,
      flatCoordinates = fc, ends = es\<rparr>"

definition readRawGeometry ::
  "pbf \<Rightarrow> nat option \<Rightarrow> int list \<Rightarrow> nat list \<Rightarrow> (error + gstate) option" where
  "readRawGeometry p geometry fc es =
     (case geometry of
        None \<Rightarrow> Some (Inl PbfError)
      | Some g \<Rightarrow>
          (case readVarint (p\<lparr>pos := g\<rparr>) of
             Inl e \<Rightarrow> Some (Inl e)
           | Inr (n, p1) \<Rightarrow>
               (case geomLoop (n + pos p1) (geomInit p1 fc es) of
                  None \<Rightarrow> None
                | Some (Inl e) \<Rightarrow> Some (Inl e)
                | Some (Inr s) \<Rightarrow> Some (Inr (flushEnd s)))))"


section \<open>The rest of the PBF reader\<close>

text \<open>
  Modelled from the spec: \<^verbatim>\<open>skip\<close>, \<^verbatim>\<open>readString\<close>, \<^verbatim>\<open>readFloat\<close>, \<^verbatim>\<open>readDouble\<close>,
  \<^verbatim>\<open>readVarint64\<close>, \<^verbatim>\<open>readBoolean\<close> and \<^verbatim>\<open>readFields\<close> of the same package, which is not among
  the sources. Strings are kept as their bytes and floating-point values as the bytes that
  encode them. \<^verbatim>\<open>readFields\<close> reads tagged fields up to an end offset and hands each tag to a
  callback; a field the callback did not consume is skipped by its wire type.
\<close>

datatype pvalue =
  Undefined | Null | StringV bytes | FloatV bytes | DoubleV bytes | NumV int | BoolV bool

function skipVarint :: "bytes \<Rightarrow> nat \<Rightarrow> nat" where
  "skipVarint bs p = (if p < length bs \<and> 127 < unat (bs ! p) then skipVarint bs (p + 1) else p + 1)"
  by pat_completeness auto
termination
  by (relation "measure (\<lambda>(bs, p). length bs - p)") auto

definition skip :: "nat \<Rightarrow> pbf \<Rightarrow> error + pbf" where
  "skip val p =
     (let t = js_and7 val in
      if t = 0 then Inr (p\<lparr>pos := skipVarint (buf p) (pos p)\<rparr>)
      else if t = 2 then
        (case readVarint p of
           Inl e \<Rightarrow> Inl e
         | Inr (n, p1) \<Rightarrow> Inr (p1\<lparr>pos := n + pos p1\<rparr>))
      else if t = 5 then Inr (p\<lparr>pos := pos p + 4\<rparr>)
      else if t = 1 then Inr (p\<lparr>pos := pos p + 8\<rparr>)
      else Inl PbfError)"

definition readString :: "pbf \<Rightarrow> error + bytes \<times> pbf" where
  "readString p =
     (case readVarint p of
        Inl e \<Rightarrow> Inl e
      | Inr (n, p1) \<Rightarrow> Inr (take n (drop (pos p1) (buf p1)), p1\<lparr>pos := n + pos p1\<rparr>))"

definition readFloat :: "pbf \<Rightarrow> bytes \<times> pbf" where
  "readFloat p = (take 4 (drop (pos p) (buf p)), p\<lparr>pos := pos p + 4\<rparr>)"

definition readDouble :: "pbf \<Rightarrow> bytes \<times> pbf" where
  "readDouble p = (take 8 (drop (pos p) (buf p)), p\<lparr>pos := pos p + 8\<rparr>)"

definition readBoolean :: "pbf \<Rightarrow> error + bool \<times> pbf" where
  "readBoolean p =
     (case readVarint p of
        Inl e \<Rightarrow> Inl e
      | Inr (n, p1) \<Rightarrow> Inr (n \<noteq> 0, p1))"

partial_function (option) readFieldsLoop ::
  "(int \<Rightarrow> 'r \<Rightarrow> pbf \<Rightarrow> (error + 'r \<times> pbf) option) \<Rightarrow> 'r \<Rightarrow> nat \<Rightarrow> pbf
     \<Rightarrow> (error + 'r \<times> pbf) option" where
  "readFieldsLoop readField result end p =
     (if pos p < end then
        (case readVarint p of
           Inl e \<Rightarrow> Some (Inl e)
         | Inr (val, p1) \<Rightarrow>
             (case readField (js_sar3 val) result p1 of
                None \<Rightarrow> None
              | Some (Inl e) \<Rightarrow> Some (Inl e)
              | Some (Inr (result', p2)) \<Rightarrow>
                  (if pos p2 = pos p1 then
                     (case skip val p2 of
                        Inl e \<Rightarrow> Some (Inl e)
                      | Inr p3 \<Rightarrow> readFieldsLoop readField result' end p3)
                   else readFieldsLoop readField result' end p2)))
      else Some (Inr (result, p)))"

text \<open>\<^verbatim>\<open>end = end || this.length\<close>: no end offset, or the offset zero, means the whole buffer.\<close>

definition readFields ::
  "(int \<Rightarrow> 'r \<Rightarrow> pbf \<Rightarrow> (error + 'r \<times> pbf) option) \<Rightarrow> 'r \<Rightarrow> nat option \<Rightarrow> pbf
     \<Rightarrow> (error + 'r \<times> pbf) option" where
  "readFields readField result end p =
     readFieldsLoop readField result
       (case end of None \<Rightarrow> length (buf p) | Some e \<Rightarrow> if e = 0 then length (buf p) else e) p"

section \<open>Layers and raw features\<close>

text \<open>
  The raw layer built by \<^verbatim>\<open>layersPBFReader\<close> and \<^verbatim>\<open>layerPBFReader\<close> (MVT.js, lines 302 to
  350). A field the record did not carry is \<^verbatim>\<open>undefined\<close>, here \<open>None\<close>. The field \<open>vals\<close> is the
  source's \<^verbatim>\<open>values\<close>; the source's \<^verbatim>\<open>layer.length\<close> is set once, to \<^verbatim>\<open>layer.features.length\<close>,
  and is read here as \<open>length (features l)\<close>.
\<close>

record layer =
  version :: "nat option"
  name :: "bytes option"
  extent :: "nat option"
  keys :: "bytes list"
  vals :: "pvalue list"
  features :: "nat list"

text \<open>Lines 336 to 348: one entry of the layer's value table.\<close>

definition readValue :: "int \<Rightarrow> pbf \<Rightarrow> error + pvalue \<times> pbf" where
  "readValue tag p =
     (if tag = 1 then
        (case readString p of Inl e \<Rightarrow> Inl e | Inr (s, p1) \<Rightarrow> Inr (StringV s, p1))
      else if tag = 2 then (case readFloat p of (b, p1) \<Rightarrow> Inr (FloatV b, p1))
      else if tag = 3 then (case readDouble p of (b, p1) \<Rightarrow> Inr (DoubleV b, p1))
      else if tag = 4 then
        (case readVarint p of Inl e \<Rightarrow> Inl e | Inr (n, p1) \<Rightarrow> Inr (NumV (int n), p1))
      else if tag = 5 then
        (case readVarint p of Inl e \<Rightarrow> Inl e | Inr (n, p1) \<Rightarrow> Inr (NumV (int n), p1))
      else if tag = 6 then
        (case readSVarint p of Inl e \<Rightarrow> Inl e | Inr (n, p1) \<Rightarrow> Inr (NumV n, p1))
      else if tag = 7 then
        (case readBoolean p of Inl e \<Rightarrow> Inl e | Inr (b, p1) \<Rightarrow> Inr (BoolV b, p1))
      else Inr (Null, p))"

lemma varintAt_pos: "varintAt k bs p = Some (v, q) \<Longrightarrow> p < q \<and> q \<le> length bs"
proof (induction k arbitrary: p v q)
  case 0
  then show ?case by simp
next
  case (Suc k)
  then show ?case
    by (fastforce simp: Let_def split: if_splits option.splits)
qed

lemma readVarint_pos:
  "readVarint p = Inr (v, p1) \<Longrightarrow> buf p1 = buf p \<and> pos p < pos p1 \<and> pos p1 \<le> length (buf p)"
  by (auto simp: readVarint_def split: option.splits dest: varintAt_pos)

lemma readSVarint_pos:
  "readSVarint p = Inr (v, p1) \<Longrightarrow> buf p1 = buf p \<and> pos p < pos p1 \<and> pos p1 \<le> length (buf p)"
  by (auto simp: readSVarint_def split: sum.splits dest: readVarint_pos)

lemma readValue_pos: "readValue tag p = Inr (v, p1) \<Longrightarrow> buf p1 = buf p \<and> pos p \<le> pos p1"
  by (auto simp: readValue_def readString_def readFloat_def readDouble_def readBoolean_def
      split: if_splits sum.splits dest!: readVarint_pos readSVarint_pos)

function valueLoop :: "nat \<Rightarrow> pvalue \<Rightarrow> pbf \<Rightarrow> error + pvalue \<times> pbf" where
  "valueLoop end value p =
     (if pos p < end then
        (case readVarint p of
           Inl e \<Rightarrow> Inl e
         | Inr (t, p1) \<Rightarrow>
             (case readValue (js_sar3 t) p1 of
                Inl e \<Rightarrow> Inl e
              | Inr (value', p2) \<Rightarrow> valueLoop end value' p2))
      else Inr (value, p))"
  by pat_completeness auto
termination
proof (relation "measure (\<lambda>(e, v, p). length (buf p) - pos p)")
  show "wf (measure (\<lambda>(e, v, p). length (buf p) - pos p))"
    by simp
next
  fix "end" :: nat and "value" :: pvalue and p x2 t p1 x2a value' p2
  assume "readVarint p = Inr x2" and "(t, p1) = x2"
    and "readValue (js_sar3 t) p1 = Inr x2a" and "(value', p2) = x2a"
  then have "readVarint p = Inr (t, p1)" and "readValue (js_sar3 t) p1 = Inr (value', p2)"
    by simp_all
  then have "buf p2 = buf p \<and> pos p < pos p2 \<and> pos p < length (buf p)"
    using readVarint_pos readValue_pos by fastforce
  then show "((end, value', p2), end, value, p) \<in> measure (\<lambda>(e, v, p). length (buf p) - pos p)"
    by auto
qed



text \<open>\<^verbatim>\<open>layerPBFReader(tag, layer, pbf)\<close>, lines 324 to 350.\<close>

definition layerPBFReader :: "int \<Rightarrow> layer \<Rightarrow> pbf \<Rightarrow> (error + layer \<times> pbf) option" where
  "layerPBFReader tag l p =
     Some
      (if tag = 15 then
         (case readVarint p of Inl e \<Rightarrow> Inl e | Inr (n, p1) \<Rightarrow> Inr (l\<lparr>version := Some n\<rparr>, p1))
       else if tag = 1 then
         (case readString p of Inl e \<Rightarrow> Inl e | Inr (s, p1) \<Rightarrow> Inr (l\<lparr>name := Some s\<rparr>, p1))
       else if tag = 5 then
         (case readVarint p of Inl e \<Rightarrow> Inl e | Inr (n, p1) \<Rightarrow> Inr (l\<lparr>extent := Some n\<rparr>, p1))
       else if tag = 2 then Inr (l\<lparr>features := features l @ [pos p]\<rparr>, p)
       else if tag = 3 then
         (case readString p of Inl e \<Rightarrow> Inl e | Inr (s, p1) \<Rightarrow> Inr (l\<lparr>keys := keys l @ [s]\<rparr>, p1))
       else if tag = 4 then
         (case readVarint p of
            Inl e \<Rightarrow> Inl e
          | Inr (n, p1) \<Rightarrow>
              (case valueLoop (n + pos p1) Null p1 of
                 Inl e \<Rightarrow> Inl e
               | Inr (v, p2) \<Rightarrow> Inr (l\<lparr>vals := vals l @ [v]\<rparr>, p2)))
       else Inr (l, p))"

text \<open>
  An object used as a dictionary is an association list in insertion order; a property
  name that is \<^verbatim>\<open>undefined\<close> is the string \<^verbatim>\<open>"undefined"\<close>.
\<close>

definition undefinedKey :: bytes where
  "undefinedKey = [117, 110, 100, 101, 102, 105, 110, 101, 100]"

definition jsKey :: "bytes option \<Rightarrow> bytes" where
  "jsKey k = (case k of None \<Rightarrow> undefinedKey | Some s \<Rightarrow> s)"

text \<open>\<^verbatim>\<open>layersPBFReader(tag, layers, pbf)\<close>, lines 302 to 316.\<close>

definition layersPBFReader ::
  "int \<Rightarrow> (bytes \<times> layer) list \<Rightarrow> pbf \<Rightarrow> (error + (bytes \<times> layer) list \<times> pbf) option" where
  "layersPBFReader tag layers p =
     (if tag = 3 then
        (case readVarint p of
           Inl e \<Rightarrow> Some (Inl e)
         | Inr (n, p1) \<Rightarrow>
             (case readFields layerPBFReader
                     \<lparr>version = None, name = None, extent = None, keys = [], vals = [], features = []\<rparr>
                     (Some (n + pos p1)) p1 of
                None \<Rightarrow> None
              | Some (Inl e) \<Rightarrow> Some (Inl e)
              | Some (Inr (l, p2)) \<Rightarrow>
                  Some (Inr (if length (features l) \<noteq> 0
                             then AList.update (jsKey (name l)) l layers
                             else layers, p2))))
      else Some (Inr (layers, p)))"

text \<open>
  The raw feature of \<^verbatim>\<open>readRawFeature\<close> (lines 384 to 395). The fields \<open>ftype\<close> and \<open>fid\<close>
  are the source's \<^verbatim>\<open>type\<close> and \<^verbatim>\<open>id\<close>.
\<close>

record rawFeature =
  layer :: layer
  ftype :: nat
  properties :: "(bytes \<times> pvalue) list"
  fid :: "nat option"
  geometry :: "nat option"

definition jsIndex :: "'a list \<Rightarrow> nat \<Rightarrow> 'a option" where
  \<comment> \<open>\<^verbatim>\<open>xs[i]\<close>, \<^verbatim>\<open>undefined\<close> out of range\<close>
  "jsIndex xs i = (if i < length xs then Some (xs ! i) else None)"

text \<open>Lines 362 to 367: the property index pairs of a feature.\<close>

function propertiesLoop :: "nat \<Rightarrow> rawFeature \<Rightarrow> pbf \<Rightarrow> error + rawFeature \<times> pbf" where
  "propertiesLoop end feature p =
     (if pos p < end then
        (case readVarint p of
           Inl e \<Rightarrow> Inl e
         | Inr (ki, p1) \<Rightarrow>
             (case readVarint p1 of
                Inl e \<Rightarrow> Inl e
              | Inr (vi, p2) \<Rightarrow>
                  propertiesLoop end
                    (feature\<lparr>properties :=
                       AList.update (jsKey (jsIndex (keys (layer feature)) ki))
                         (case jsIndex (vals (layer feature)) vi of None \<Rightarrow> Undefined | Some v \<Rightarrow> v)
                         (properties feature)\<rparr>)
                    p2))
      else Inr (feature, p))"
  by pat_completeness auto
termination
proof (relation "measure (\<lambda>(e, f, p). length (buf p) - pos p)")
  show "wf (measure (\<lambda>(e, f, p). length (buf p) - pos p))"
    by simp
next
  fix "end" :: nat and feature :: rawFeature and p x2 ki p1 x2a vi p2
  assume "readVarint p = Inr x2" and "(ki, p1) = x2"
    and "readVarint p1 = Inr x2a" and "(vi, p2) = x2a"
  then have "readVarint p = Inr (ki, p1)" and "readVarint p1 = Inr (vi, p2)"
    by simp_all
  then have "buf p2 = buf p \<and> pos p < pos p2 \<and> pos p2 \<le> length (buf p)"
    using readVarint_pos [of p ki p1] readVarint_pos [of p1 vi p2] by simp
  then show "((end,
      feature\<lparr>properties :=
        AList.update (jsKey (jsIndex (keys (layer feature)) ki))
          (case jsIndex (vals (layer feature)) vi of None \<Rightarrow> Undefined | Some v \<Rightarrow> v)
          (properties feature)\<rparr>, p2), end, feature, p)
      \<in> measure (\<lambda>(e, f, p). length (buf p) - pos p)"
    by auto
qed

text \<open>\<^verbatim>\<open>featurePBFReader(tag, feature, pbf)\<close>, lines 358 to 373.\<close>

definition featurePBFReader ::
  "int \<Rightarrow> rawFeature \<Rightarrow> pbf \<Rightarrow> (error + rawFeature \<times> pbf) option" where
  "featurePBFReader tag feature p =
     Some
      (if tag = 1 then
         (case readVarint p of Inl e \<Rightarrow> Inl e | Inr (n, p1) \<Rightarrow> Inr (feature\<lparr>fid := Some n\<rparr>, p1))
       else if tag = 2 then
         (case readVarint p of
            Inl e \<Rightarrow> Inl e
          | Inr (n, p1) \<Rightarrow> propertiesLoop (n + pos p1) feature p1)
       else if tag = 3 then
         (case readVarint p of Inl e \<Rightarrow> Inl e | Inr (n, p1) \<Rightarrow> Inr (feature\<lparr>ftype := n\<rparr>, p1))
       else if tag = 4 then Inr (feature\<lparr>geometry := Some (pos p)\<rparr>, p)
       else Inr (feature, p))"

text \<open>\<^verbatim>\<open>readRawFeature(pbf, layer, i)\<close>, called with \<open>i\<close> below the number of features.\<close>

definition readRawFeature :: "pbf \<Rightarrow> layer \<Rightarrow> nat \<Rightarrow> (error + rawFeature \<times> pbf) option" where
  "readRawFeature p l i =
     (case readVarint (p\<lparr>pos := features l ! i\<rparr>) of
        Inl e \<Rightarrow> Some (Inl e)
      | Inr (n, p1) \<Rightarrow>
          readFields featurePBFReader
            \<lparr>layer = l, ftype = 0, properties = [], fid = None, geometry = None\<rparr>
            (Some (n + pos p1)) p1)"


section \<open>Features\<close>

text \<open>
  The names of \<^verbatim>\<open>GeometryType\<close> that the source uses, and \<^verbatim>\<open>getGeometryType(type, numEnds)\<close>
  (lines 405 to 421); a raw type other than 1, 2 and 3 leaves the result \<^verbatim>\<open>undefined\<close>.
\<close>

datatype geometryType =
  POINT | LINE_STRING | POLYGON | MULTI_POINT | MULTI_LINE_STRING | MULTI_POLYGON

definition getGeometryType :: "nat \<Rightarrow> nat \<Rightarrow> geometryType option" where
  "getGeometryType type numEnds =
     (if type = 1 then Some (if numEnds = 1 then POINT else MULTI_POINT)
      else if type = 2 then Some (if numEnds = 1 then LINE_STRING else MULTI_LINE_STRING)
      else if type = 3 then Some POLYGON
      else None)"

text \<open>
  The geometry objects are opaque values: each constructor keeps the arguments the source
  passes to it (the layout is always \<^verbatim>\<open>GeometryLayout.XY\<close>). A feature is either a render
  feature, built from the geometry type, the coordinates, the ends, the properties and the
  id, or an instance of another feature class, on which the source sets the geometry name,
  the geometry, the id and the properties. \<^verbatim>\<open>transformWithOptions\<close> belongs to the feature
  format base class and is not modelled: the geometry is kept as it is built.
\<close>

datatype geom =
  Point "int list"
| LineString "int list"
| Polygon "int list" "nat list"
| MultiPoint "int list"
| MultiLineString "int list" "nat list"
| MultiPolygon "int list" "nat list list"

datatype feature =
  RenderFeatureObj "geometryType option" "int list" "nat list" "(bytes \<times> pvalue) list" "nat option"
| FeatureObj "bytes option" "geom option" "nat option" "(bytes \<times> pvalue) list"

datatype featureClass = RenderFeature | OtherFeatureClass

text \<open>
  The fields of the format object set by the constructor (lines 48 to 94). \<open>layersOpt\<close> and
  \<open>lastExtent\<close> are the source's \<^verbatim>\<open>layers_\<close> and \<^verbatim>\<open>extent_\<close>, \<open>None\<close> for \<^verbatim>\<open>null\<close>.
\<close>

record mvt =
  featureClass :: featureClass
  geometryName :: "bytes option"
  layerName :: bytes
  layersOpt :: "bytes list option"
  lastExtent :: "nat option list option"

text \<open>
  Lines 194 to 204: the pass over the rings of a polygon. The winding test
  \<^verbatim>\<open>linearRingIsClockwise(flatCoordinates, offset, end, stride)\<close> of \<^verbatim>\<open>ol/geom/flat/orient.js\<close>
  is not among the sources and is a parameter.
\<close>

type_synonym windingTest = "int list \<Rightarrow> nat \<Rightarrow> nat \<Rightarrow> nat \<Rightarrow> bool"

definition slice :: "'a list \<Rightarrow> nat \<Rightarrow> nat \<Rightarrow> 'a list" where
  \<comment> \<open>\<^verbatim>\<open>xs.slice(a, b)\<close> for offsets within the array\<close>
  "slice xs a b = take (b - a) (drop a xs)"

function ringsLoop ::
  "windingTest \<Rightarrow> int list \<Rightarrow> nat list \<Rightarrow> nat \<Rightarrow> nat list list \<Rightarrow> nat \<Rightarrow> nat \<Rightarrow> nat list list" where
  "ringsLoop linearRingIsClockwise fc es i endss offset prevEndIndex =
     (if i < length es then
        (let end = es ! i in
         if \<not> linearRingIsClockwise fc offset end 2
         then ringsLoop linearRingIsClockwise fc es (i + 1)
                (endss @ [slice es prevEndIndex i]) end i
         else ringsLoop linearRingIsClockwise fc es (i + 1) endss end prevEndIndex)
      else endss)"
  by pat_completeness auto
termination
  by (relation "measure (\<lambda>(cw, fc, es, i, endss, offset, prev). length es - i)") auto

text \<open>Lines 192 to 217: the geometry built for a feature class other than the render feature.\<close>

definition buildGeometry ::
  "windingTest \<Rightarrow> geometryType option \<Rightarrow> int list \<Rightarrow> nat list \<Rightarrow> geom option" where
  "buildGeometry linearRingIsClockwise gt fc es =
     (if gt = Some POLYGON then
        (let endss = ringsLoop linearRingIsClockwise fc es 0 [] 0 0 in
         if 1 < length endss then Some (MultiPolygon fc endss) else Some (Polygon fc es))
      else if gt = Some POINT then Some (Point fc)
      else if gt = Some LINE_STRING then Some (LineString fc)
      else if gt = Some POLYGON then Some (Polygon fc es)
      else if gt = Some MULTI_POINT then Some (MultiPoint fc)
      else if gt = Some MULTI_LINE_STRING then Some (MultiLineString fc es)
      else None)"

text \<open>
  \<^verbatim>\<open>createFeature_(pbf, rawFeature)\<close>, lines 172 to 229 (named here without the trailing
  underscore); \<open>None\<close> in the result is the \<^verbatim>\<open>null\<close> returned for the raw type 0.
\<close>

definition createFeature ::
  "mvt \<Rightarrow> windingTest \<Rightarrow> pbf \<Rightarrow> rawFeature \<Rightarrow> (error + feature option \<times> pbf) option" where
  "createFeature fmt linearRingIsClockwise p raw =
     (if ftype raw = 0 then Some (Inr (None, p))
      else
        (let values = AList.update (layerName fmt)
                        (case name (layer raw) of None \<Rightarrow> Undefined | Some n \<Rightarrow> StringV n)
                        (properties raw)
         in case readRawGeometry p (geometry raw) [] [] of
              None \<Rightarrow> None
            | Some (Inl e) \<Rightarrow> Some (Inl e)
            | Some (Inr s) \<Rightarrow>
                (let geometryType = getGeometryType (ftype raw) (length (ends s)) in
                 if featureClass fmt = RenderFeature then
                   Some (Inr (Some (RenderFeatureObj geometryType (flatCoordinates s) (ends s)
                                      values (fid raw)), rd s))
                 else
                   Some (Inr (Some (FeatureObj
                                      (case geometryName fmt of
                                         None \<Rightarrow> None
                                       | Some n \<Rightarrow> if n = [] then None else Some n)
                                      (buildGeometry linearRingIsClockwise geometryType
                                         (flatCoordinates s) (ends s))
                                      (fid raw) values), rd s)))))"

section \<open>readFeatures\<close>

text \<open>Lines 265 to 268: the features of one layer, in order.\<close>

function featuresLoop ::
  "mvt \<Rightarrow> windingTest \<Rightarrow> layer \<Rightarrow> nat \<Rightarrow> pbf \<Rightarrow> feature option list
     \<Rightarrow> (error + feature option list \<times> pbf) option" where
  "featuresLoop fmt cw pbfLayer i p fs =
     (if i < length (features pbfLayer) then
        (case readRawFeature p pbfLayer i of
           None \<Rightarrow> None
         | Some (Inl e) \<Rightarrow> Some (Inl e)
         | Some (Inr (rawFeature, p1)) \<Rightarrow>
             (case createFeature fmt cw p1 rawFeature of
                None \<Rightarrow> None
              | Some (Inl e) \<Rightarrow> Some (Inl e)
              | Some (Inr (f, p2)) \<Rightarrow> featuresLoop fmt cw pbfLayer (i + 1) p2 (fs @ [f])))
      else Some (Inr (fs, p)))"
  by pat_completeness auto
termination
  by (relation "measure (\<lambda>(fmt, cw, l, i, p, fs). length (features l) - i)") auto

text \<open>
  \<^verbatim>\<open>for (name in pbfLayers)\<close> enumerates the names that are array indices first, in
  ascending order, and then the other names in insertion order.
\<close>

definition arrayIndex :: "bytes \<Rightarrow> nat option" where
  "arrayIndex k =
     (let ds = map unat k;
          n = foldl (\<lambda>a d. 10 * a + (d - 48)) 0 ds
      in if ds \<noteq> [] \<and> list_all (\<lambda>d. 48 \<le> d \<and> d \<le> 57) ds \<and> (ds = [48] \<or> hd ds \<noteq> 48)
            \<and> n < 2 ^ 32 - 1
         then Some n else None)"

definition forIn :: "(bytes \<times> 'a) list \<Rightarrow> (bytes \<times> 'a) list" where
  "forIn xs =
     sort_key (\<lambda>(k, v). case arrayIndex k of None \<Rightarrow> 0 | Some n \<Rightarrow> n)
       (filter (\<lambda>(k, v). arrayIndex k \<noteq> None) xs)
     @ filter (\<lambda>(k, v). arrayIndex k = None) xs"

text \<open>Lines 259 to 270: the loop over the layers read from the tile.\<close>

fun layersLoop ::
  "windingTest \<Rightarrow> (bytes \<times> layer) list \<Rightarrow> pbf \<Rightarrow> feature option list \<Rightarrow> mvt
     \<Rightarrow> (error + feature option list \<times> mvt) option" where
  "layersLoop cw [] p fs fmt = Some (Inr (fs, fmt))"
| "layersLoop cw ((nm, pbfLayer) # rest) p fs fmt =
     (if (case layersOpt fmt of None \<Rightarrow> False | Some ls \<Rightarrow> nm \<notin> set ls)
      then layersLoop cw rest p fs fmt
      else
        (case featuresLoop fmt cw pbfLayer 0 p fs of
           None \<Rightarrow> None
         | Some (Inl e) \<Rightarrow> Some (Inl e)
         | Some (Inr (fs', p')) \<Rightarrow>
             layersLoop cw rest p' fs'
               (fmt\<lparr>lastExtent := Some [Some 0, Some 0, extent pbfLayer, extent pbfLayer]\<rparr>)))"

text \<open>\<^verbatim>\<open>readFeatures(source)\<close>, lines 250 to 273: the features and the format object after the call.\<close>

definition readFeatures ::
  "mvt \<Rightarrow> windingTest \<Rightarrow> bytes \<Rightarrow> (error + feature option list \<times> mvt) option" where
  "readFeatures fmt cw source =
     (case readFields layersPBFReader [] None \<lparr>buf = source, pos = 0\<rparr> of
        None \<Rightarrow> None
      | Some (Inl e) \<Rightarrow> Some (Inl e)
      | Some (Inr (pbfLayers, p)) \<Rightarrow> layersLoop cw (forIn pbfLayers) p [] fmt)"


section \<open>Resource load state machine\<close>

text \<open>
  Modelled from the spec: \<^verbatim>\<open>loadImage\<close> of \<^verbatim>\<open>ol/renderer/Layer.js\<close> and the image wrapper it
  works on are not among the sources (only the test \<^verbatim>\<open>layer.test.js\<close> that calls them is).
  The spec, sections 3 and 4.1: a resource has an extent, a resolution, a pixel ratio, a
  state out of IDLE, LOADING, LOADED, ERROR and EMPTY, a source locator, and a listener
  registry from event types to ordered sequences of pending callbacks.
  \<^verbatim>\<open>ensureLoaded(resource)\<close> returns true at once, with no listener registered and no side
  effect, if the state is LOADED or EMPTY; on IDLE it registers a \<^verbatim>\<open>change\<close> listener,
  triggers the load, moves to LOADING and returns false; on LOADING it returns false and
  registers no second listener; on ERROR it returns false. Callbacks are of an arbitrary
  type; the trigger of the fetch belongs to the source collaborator and is not modelled.
\<close>

datatype resourceState = IDLE | LOADING | LOADED | ERROR | EMPTY

record 'c tileResource =
  resExtent :: "int list"
  resolution :: int
  pixelRatio :: int
  state :: resourceState
  resSrc :: string
  listeners :: "(string \<times> 'c list) list"

definition listenersOf :: "string \<Rightarrow> 'c tileResource \<Rightarrow> 'c list" where
  "listenersOf eventType r = (case map_of (listeners r) eventType of None \<Rightarrow> [] | Some cs \<Rightarrow> cs)"

definition addListener :: "string \<Rightarrow> 'c \<Rightarrow> 'c tileResource \<Rightarrow> 'c tileResource" where
  "addListener eventType cb r =
     r\<lparr>listeners := AList.update eventType (listenersOf eventType r @ [cb]) (listeners r)\<rparr>"

definition ensureLoaded :: "'c \<Rightarrow> 'c tileResource \<Rightarrow> bool \<times> 'c tileResource" where
  "ensureLoaded retry r =
     (case state r of
        LOADED \<Rightarrow> (True, r)
      | EMPTY \<Rightarrow> (True, r)
      | IDLE \<Rightarrow> (False, (addListener ''change'' retry r)\<lparr>state := LOADING\<rparr>)
      | LOADING \<Rightarrow> (False, r)
      | ERROR \<Rightarrow> (False, r))"

section \<open>Tile coordinate keys\<close>

text \<open>
  Modelled from the spec: \<^verbatim>\<open>ol/tilecoord.js\<close> is not among the sources (the test imports
  \<^verbatim>\<open>fromKey\<close> from it). The spec, sections 3 and 4.3: a tile coordinate is a triple
  \<open>(z, x, y)\<close> of integers, encoded as \<^verbatim>\<open>key = z + "/" + x + "/" + y\<close>; \<^verbatim>\<open>fromKey\<close> is the exact
  inverse and fails with \<^verbatim>\<open>MalformedKey\<close> on structurally invalid input; negative \<open>x\<close> and \<open>y\<close>
  are supported. An integer is written in decimal, with a minus sign when negative; a key
  is well formed when it splits at \<^verbatim>\<open>/\<close> into exactly three such numerals.
\<close>

datatype cacheError = MalformedKey | NotFound | EmptyCache

definition digit :: "nat \<Rightarrow> char" where
  "digit d = ''0123456789'' ! d"

function showNat :: "nat \<Rightarrow> string" where
  "showNat n = (if n < 10 then [digit n] else showNat (n div 10) @ [digit (n mod 10)])"
  by pat_completeness auto
termination
  by (relation "measure id") auto

definition showInt :: "int \<Rightarrow> string" where
  "showInt i = (if i < 0 then CHR ''-'' # showNat (nat (- i)) else showNat (nat i))"

definition toKey :: "int \<Rightarrow> int \<Rightarrow> int \<Rightarrow> string" where
  "toKey z x y = showInt z @ ''/'' @ showInt x @ ''/'' @ showInt y"

definition isDigit :: "char \<Rightarrow> bool" where
  "isDigit c = (c \<in> set ''0123456789'')"

definition digitVal :: "char \<Rightarrow> nat" where
  "digitVal c = (of_char c :: nat) - 48"

definition parseNat :: "string \<Rightarrow> nat" where
  "parseNat s = foldl (\<lambda>a c. 10 * a + digitVal c) 0 s"

definition isNumeral :: "string \<Rightarrow> bool" where
  "isNumeral s = (s \<noteq> [] \<and> list_all isDigit s)"

definition parseInt :: "string \<Rightarrow> int option" where
  "parseInt s =
     (case s of
        [] \<Rightarrow> None
      | c # r \<Rightarrow>
          if c = CHR ''-'' then (if isNumeral r then Some (- int (parseNat r)) else None)
          else if isNumeral s then Some (int (parseNat s)) else None)"

fun splitOn :: "char \<Rightarrow> string \<Rightarrow> string list" where
  "splitOn c [] = [[]]"
| "splitOn c (x # xs) =
     (if x = c then [] # splitOn c xs
      else (case splitOn c xs of [] \<Rightarrow> [[x]] | p # ps \<Rightarrow> (x # p) # ps))"

definition fromKey :: "string \<Rightarrow> cacheError + int \<times> int \<times> int" where
  "fromKey key =
     (case splitOn CHR ''/'' key of
        [a, b, c] \<Rightarrow>
          (case (parseInt a, parseInt b, parseInt c) of
             (Some z, Some x, Some y) \<Rightarrow> Inr (z, x, y)
           | _ \<Rightarrow> Inl MalformedKey)
      | _ \<Rightarrow> Inl MalformedKey)"

section \<open>Tile cache\<close>

text \<open>
  Modelled from the spec: the tile cache (\<^verbatim>\<open>source.tileCache\<close> in the test) is not among the
  sources. The spec, sections 3 and 4.2: a bounded mapping from keys to resources with a
  capacity and a most-recently-touched order, first the most recently set entry, last the
  least recently touched one, the next candidate for eviction. \<^verbatim>\<open>set\<close> inserts or replaces
  and makes the entry the first; \<^verbatim>\<open>get\<close> fails with \<^verbatim>\<open>NotFound\<close> if the key is absent and
  does not alter the order; \<^verbatim>\<open>peekFirstKey\<close> and \<^verbatim>\<open>peekLastKey\<close> fail with \<^verbatim>\<open>EmptyCache\<close> on an
  empty cache; \<^verbatim>\<open>prune(activeKeys, highWaterMark, lowWaterMark)\<close> walks from the least
  recently touched entry, evicting entries whose key is not in \<^verbatim>\<open>activeKeys\<close>, until the
  size is at most \<^verbatim>\<open>lowWaterMark\<close>, and evicts nothing unless the size exceeds
  \<^verbatim>\<open>highWaterMark\<close>; \<^verbatim>\<open>expireCache(activeKeys)\<close> is the wrapper called once per frame. The spec
  names no watermarks for the wrapper: by the invariant of section 3 (the entry count is at
  most the capacity after \<^verbatim>\<open>expireCache\<close>, pinned entries excepted) both are the capacity.
  The entries are kept as a list, the most recently touched first.
\<close>

record ('k, 'v) cache =
  entries :: "('k \<times> 'v) list"
  capacity :: nat

definition set_entry :: "'k \<Rightarrow> 'v \<Rightarrow> ('k, 'v) cache \<Rightarrow> ('k, 'v) cache" where
  "set_entry key resource c =
     c\<lparr>entries := (key, resource) # filter (\<lambda>e. fst e \<noteq> key) (entries c)\<rparr>"

definition get_entry :: "'k \<Rightarrow> ('k, 'v) cache \<Rightarrow> cacheError + 'v" where
  "get_entry key c = (case map_of (entries c) key of None \<Rightarrow> Inl NotFound | Some v \<Rightarrow> Inr v)"

definition peekFirstKey :: "('k, 'v) cache \<Rightarrow> cacheError + 'k" where
  "peekFirstKey c = (case entries c of [] \<Rightarrow> Inl EmptyCache | e # es \<Rightarrow> Inr (fst e))"

definition peekLastKey :: "('k, 'v) cache \<Rightarrow> cacheError + 'k" where
  "peekLastKey c = (if entries c = [] then Inl EmptyCache else Inr (fst (last (entries c))))"

text \<open>
  The walk of \<^verbatim>\<open>prune\<close> over the entries, least recently touched first; \<open>n\<close> is the current
  size of the cache.
\<close>

fun evictWalk :: "'k set \<Rightarrow> nat \<Rightarrow> nat \<Rightarrow> ('k \<times> 'v) list \<Rightarrow> ('k \<times> 'v) list" where
  "evictWalk activeKeys lowWaterMark n [] = []"
| "evictWalk activeKeys lowWaterMark n (e # es) =
     (if n \<le> lowWaterMark then e # es
      else if fst e \<in> activeKeys then e # evictWalk activeKeys lowWaterMark n es
      else evictWalk activeKeys lowWaterMark (n - 1) es)"

definition prune :: "'k set \<Rightarrow> nat \<Rightarrow> nat \<Rightarrow> ('k, 'v) cache \<Rightarrow> ('k, 'v) cache" where
  "prune activeKeys highWaterMark lowWaterMark c =
     (if highWaterMark < length (entries c)
      then c\<lparr>entries :=
                rev (evictWalk activeKeys lowWaterMark (length (entries c)) (rev (entries c)))\<rparr>
      else c)"

definition expireCache :: "'k set \<Rightarrow> ('k, 'v) cache \<Rightarrow> ('k, 'v) cache" where
  "expireCache activeKeys c = prune activeKeys (capacity c) (capacity c) c"

text \<open>
  A frame of the renderer on the cache: the tiles of the frame are requested in order,
  each set into the cache, and then \<^verbatim>\<open>expireCache\<close> runs (section 5: it must be invoked after
  all tile requests of the frame have been issued).
\<close>

definition requestTiles ::
  "(int \<times> int \<times> int \<Rightarrow> 'v) \<Rightarrow> (int \<times> int \<times> int) list \<Rightarrow> (string, 'v) cache \<Rightarrow> (string, 'v) cache" where
  "requestTiles load tiles c =
     foldl (\<lambda>c t. case t of (z, x, y) \<Rightarrow> set_entry (toKey z x y) (load t) c) c tiles"

definition renderFrame ::
  "(int \<times> int \<times> int \<Rightarrow> 'v) \<Rightarrow> (int \<times> int \<times> int) list \<Rightarrow> (string, 'v) cache \<Rightarrow> (string, 'v) cache" where
  "renderFrame load tiles c =
     expireCache (set (map (\<lambda>(z, x, y). toKey z x y) tiles)) (requestTiles load tiles c)"

section \<open>Notions used in the statements\<close>

text \<open>
  The first \<open>n\<close> passes of the while loop of \<^verbatim>\<open>readRawGeometry_\<close>: the state after them, or the
  failure of one of them.
\<close>

primrec geomIter :: "nat \<Rightarrow> nat \<Rightarrow> gstate \<Rightarrow> error + gstate" where
  "geomIter end 0 s = Inr s"
| "geomIter end (Suc n) s =
     (if pos (rd s) < end then
        (case geomStep s of
           Inl e \<Rightarrow> Inl e
         | Inr s' \<Rightarrow> geomIter end n s')
      else Inr s)"

text \<open>
  The bookkeeping invariant of the loop: \<^verbatim>\<open>coordsLen\<close> counts the coordinates, \<^verbatim>\<open>currentEnd\<close> is
  the last recorded end (0 when there is none), and the recorded ends are even and
  strictly increasing.
\<close>

definition geomInv :: "gstate \<Rightarrow> bool" where
  "geomInv s =
     (length (flatCoordinates s) = coordsLen s \<and> even (coordsLen s)
      \<and> currentEnd s \<le> coordsLen s
      \<and> currentEnd s = last (0 # ends s)
      \<and> sorted_wrt (<) (0 # ends s) \<and> list_all even (ends s))"

text \<open>A layer is read when no layer list is set or its name is in the list (line 260).\<close>

definition selected :: "mvt \<Rightarrow> bytes \<Rightarrow> bool" where
  "selected fmt nm = (case layersOpt fmt of None \<Rightarrow> True | Some ls \<Rightarrow> nm \<in> set ls)"

text \<open>
  Ring \<open>i\<close> of a polygon lies between the end before it and its own end. The rings that the
  pass of lines 194 to 204 treats as the start of a polygon are those on which the winding
  test is false.
\<close>

definition ringStart :: "nat list \<Rightarrow> nat \<Rightarrow> nat" where
  "ringStart es i = (if i = 0 then 0 else es ! (i - 1))"

definition exteriorRings :: "windingTest \<Rightarrow> int list \<Rightarrow> nat list \<Rightarrow> nat list" where
  "exteriorRings cw fc es = filter (\<lambda>i. \<not> cw fc (ringStart es i) (es ! i) 2) [0..<length es]"

text \<open>
  Modelled from the spec: \<^verbatim>\<open>linearRingIsClockwise\<close> of \<^verbatim>\<open>ol/geom/flat/orient.js\<close> is not among
  the sources. The spec has the winding order of a ring tested by its signed area; the
  test sums \<open>(x2 - x1) * (y2 + y1)\<close> over the edges of the ring, the closing edge included,
  and answers whether the sum is positive. It is used for the examples only.
\<close>

function edgeSum :: "int list \<Rightarrow> nat \<Rightarrow> nat \<Rightarrow> nat \<Rightarrow> int \<Rightarrow> int \<Rightarrow> int \<Rightarrow> int" where
  "edgeSum fc offset end stride x1 y1 edge =
     (if offset < end \<and> 0 < stride
      then edgeSum fc (offset + stride) end stride (fc ! offset) (fc ! (offset + 1))
             (edge + (fc ! offset - x1) * (fc ! (offset + 1) + y1))
      else edge)"
  by pat_completeness auto
termination
  by (relation "measure (\<lambda>(fc, offset, e, stride, x1, y1, edge). e - offset)") auto

definition linearRingIsClockwise :: windingTest where
  "linearRingIsClockwise fc offset end stride =
     (0 < edgeSum fc offset end stride (fc ! (end - stride)) (fc ! (end - stride + 1)) 0)"

section \<open>Example buffers\<close>

text \<open>
  Two geometry command streams, each behind its length byte. \<open>exA\<close>: MoveTo (+2, +3),
  LineTo (+1, +1), MoveTo (-1, +5). \<open>exB\<close>: MoveTo (0, 0), LineTo (+4, 0) and (-4, +4),
  ClosePath, LineTo (+1, +1). \<open>sA2\<close> and \<open>sA3\<close> are the states of the loop on \<open>exA\<close> before
  and after its third pass.
\<close>

definition exA :: bytes where
  "exA = [9, 9, 4, 6, 10, 2, 2, 9, 1, 10]"

definition exB :: bytes where
  "exB = [12, 9, 0, 0, 18, 8, 0, 7, 8, 15, 10, 2, 2]"

definition sA2 :: gstate where
  "sA2 = \<lparr>rd = \<lparr>buf = exA, pos = 7\<rparr>, cmd = 2, len = 0, cx = 3, cy = 4, coordsLen = 4,
          currentEnd = 0, flatCoordinates = [2, 3, 3, 4], ends = []\<rparr>"

definition sA3 :: gstate where
  "sA3 = \<lparr>rd = \<lparr>buf = exA, pos = 10\<rparr>, cmd = 1, len = 0, cx = 2, cy = 9, coordsLen = 6,
          currentEnd = 4, flatCoordinates = [2, 3, 3, 4, 2, 9], ends = [4]\<rparr>"

text \<open>\<open>sB3\<close> and \<open>sB4\<close> are the states of the loop on \<open>exB\<close> before and after the ClosePath.\<close>

definition sB3 :: gstate where
  "sB3 = \<lparr>rd = \<lparr>buf = exB, pos = 9\<rparr>, cmd = 2, len = 0, cx = 0, cy = 4, coordsLen = 6,
          currentEnd = 0, flatCoordinates = [0, 0, 4, 0, 0, 4], ends = []\<rparr>"

definition sB4 :: gstate where
  "sB4 = \<lparr>rd = \<lparr>buf = exB, pos = 10\<rparr>, cmd = 7, len = 0, cx = 0, cy = 4, coordsLen = 8,
          currentEnd = 0, flatCoordinates = [0, 0, 4, 0, 0, 4, 0, 0], ends = []\<rparr>"

text \<open>
  A format object with the constructor's defaults (render features, layer name \<^verbatim>\<open>layer\<close>), and
  two tiles with one layer named \<^verbatim>\<open>a\<close> of two features each. The first feature of both is the
  point (2, 3). The second feature of \<open>tile2\<close> carries an id and no type, so its raw type is 0;
  the second feature of \<open>tile3\<close> is a point whose geometry is the single command header 11,
  that is command 3 with count 1.
\<close>

definition fmtR :: mvt where
  "fmtR = \<lparr>featureClass = RenderFeature, geometryName = None, layerName = [108, 97, 121, 101, 114],
           layersOpt = None, lastExtent = None\<rparr>"

definition tile2 :: bytes where
  "tile2 = [26, 16, 10, 1, 97, 18, 7, 24, 1, 34, 3, 9, 4, 6, 18, 2, 8, 5]"

definition tile3 :: bytes where
  "tile3 = [26, 19, 10, 1, 97, 18, 7, 24, 1, 34, 3, 9, 4, 6, 18, 5, 24, 1, 34, 1, 11]"

definition layerA :: layer where
  "layerA = \<lparr>version = None, name = Some [97], extent = None, keys = [], vals = [],
             features = [6, 15]\<rparr>"

definition pointA :: feature where
  "pointA = RenderFeatureObj (Some POINT) [2, 3] [2] [([108, 97, 121, 101, 114], StringV [97])] None"

definition raw3 :: rawFeature where
  "raw3 = \<lparr>layer = layerA, ftype = 1, properties = [], fid = None, geometry = Some 19\<rparr>"

definition raw2 :: rawFeature where
  "raw2 = \<lparr>layer = layerA, ftype = 0, properties = [], fid = Some 5, geometry = None\<rparr>"

text \<open>
  A tile whose layer starts with a value record holding the unknown field 8 (a varint field
  with the value 10), followed by the layer name \<^verbatim>\<open>a\<close> and the point feature.
\<close>

definition emptyLayer :: layer where
  "emptyLayer = \<lparr>version = None, name = None, extent = None, keys = [], vals = [], features = []\<rparr>"

definition tile4 :: bytes where
  "tile4 = [26, 16, 34, 2, 64, 10, 10, 1, 97, 18, 7, 24, 1, 34, 3, 9, 4, 6]"

text \<open>
  Two polygon geometries behind their length byte, and a format object for a feature class
  other than the render feature. \<open>exC\<close>: the square (0,0) (4,0) (4,4) (0,4) and the square
  (10,10) (14,10) (14,14) (10,14), both closed and both wound as exterior rings are in tile
  coordinates. \<open>exD\<close>: the first square and, wound the other way, the ring (1,1) (1,3) (3,3)
  (3,1).
\<close>

definition exC :: bytes where
  "exC = [22, 9, 0, 0, 26, 8, 0, 0, 8, 7, 0, 15, 9, 20, 12, 26, 8, 0, 0, 8, 7, 0, 15]"

definition exD :: bytes where
  "exD = [22, 9, 0, 0, 26, 8, 0, 0, 8, 7, 0, 15, 9, 2, 5, 26, 0, 4, 4, 0, 0, 3, 15]"

definition flatC :: "int list" where
  "flatC = [0, 0, 4, 0, 4, 4, 0, 4, 0, 0, 10, 10, 14, 10, 14, 14, 10, 14, 10, 10]"

definition flatD :: "int list" where
  "flatD = [0, 0, 4, 0, 4, 4, 0, 4, 0, 0, 1, 1, 1, 3, 3, 3, 3, 1, 1, 1]"

definition fmtF :: mvt where
  "fmtF = \<lparr>featureClass = OtherFeatureClass, geometryName = None,
           layerName = [108, 97, 121, 101, 114], layersOpt = None, lastExtent = None\<rparr>"

definition rawP :: rawFeature where
  "rawP = \<lparr>layer = emptyLayer, ftype = 3, properties = [], fid = None, geometry = Some 0\<rparr>"

text \<open>
  The scenario of the test: a cache of capacity 2 that holds the root tile of zoom 0, and
  the two tiles requested after the view has moved to zoom 4.
\<close>

definition cache0 :: "(string, nat) cache" where
  "cache0 = \<lparr>entries = [(''0/0/0'', 0)], capacity = 2\<rparr>"

definition tiles4 :: "(int \<times> int \<times> int) list" where
  "tiles4 = [(4, 7, 7), (4, 8, 7)]"

text \<open>
  An idle image as the test builds it, with callbacks numbered, and a cache of five entries,
  the key 5 touched most recently and the key 1 least recently.
\<close>

definition image0 :: "nat tileResource" where
  "image0 = \<lparr>resExtent = [], resolution = 1, pixelRatio = 1, state = IDLE, resSrc = [], listeners = []\<rparr>"

definition cacheE :: "(nat, unit) cache" where
  "cacheE = \<lparr>entries = [(5, ()), (4, ()), (3, ()), (2, ()), (1, ())], capacity = 3\<rparr>"

section \<open>Evaluation on concrete buffers\<close>

declare skipVarint.simps [simp del]
declare valueLoop.simps [simp del]
declare propertiesLoop.simps [simp del]
declare ringsLoop.simps [simp del]
declare featuresLoop.simps [simp del]
declare edgeSum.simps [simp del]

lemma varintAt_numeral:
  "varintAt (numeral n) bs p =
     (if p < length bs then
        (let b = unat (bs ! p) in
         if b < 128 then Some (b, p + 1)
         else (case varintAt (pred_numeral n) bs (p + 1) of
                 None \<Rightarrow> None
               | Some (v, q) \<Rightarrow> Some (b mod 128 + 128 * v, q)))
      else None)"
  by (simp add: numeral_eq_Suc)

lemmas pbf_eval =
  varintAt_numeral readVarint_def readSVarint_def zigzag_def js_and7_def js_sar3_def
  toInt32_def Let_def

lemmas geom_eval =
  readRawGeometry_def geomLoop.simps geomStep_def readCommand_def moveOrLineTo_def
  closePath_def flushEnd_def geomInit_def

lemmas tile_eval =
  readFeatures_def readFields_def readFieldsLoop.simps layersPBFReader_def
  layerPBFReader_def featurePBFReader_def readRawFeature_def createFeature_def
  getGeometryType_def buildGeometry_def featuresLoop.simps valueLoop.simps
  propertiesLoop.simps ringsLoop.simps skip_def skipVarint.simps readString_def
  readValue_def readFloat_def readDouble_def readBoolean_def jsKey_def jsIndex_def
  forIn_def arrayIndex_def slice_def selected_def ringStart_def exteriorRings_def
  linearRingIsClockwise_def edgeSum.simps


section \<open>Arithmetic of the decoder\<close>

lemma h_mod8: "((a::int) - 4294967296) mod 8 = a mod 8"
  by presburger

lemma js_and7_mod: "js_and7 n = n mod 8"
proof -
  let ?m = "n mod 2 ^ 32"
  have a: "?m mod 8 = n mod 8"
    by (simp add: mod_mod_cancel)
  have "toInt32 n mod 8 = int ?m mod 8"
    using h_mod8 [of "int ?m"] by (simp add: toInt32_def Let_def)
  also have "\<dots> = int (n mod 8)"
    using a by (metis of_nat_mod of_nat_numeral)
  finally show ?thesis
    by (simp add: js_and7_def)
qed

lemma zigzag_even: "zigzag (2 * k) = int k"
  by (simp add: zigzag_def)

lemma zigzag_odd: "zigzag (2 * k + 1) = - int k - 1"
  by (simp add: zigzag_def)

section \<open>The geometry loop\<close>

lemma geomStep_cases:
  assumes "geomStep s = Inr s'"
  obtains s1 where "readCommand s = Inr s1" "cmd s1 = 1 \<or> cmd s1 = 2"
      "moveOrLineTo (s1\<lparr>len := len s1 - 1\<rparr>) = Inr s'"
    | s1 where "readCommand s = Inr s1" "cmd s1 = 7" "s' = closePath (s1\<lparr>len := len s1 - 1\<rparr>)"
  using assms by (auto simp: geomStep_def Let_def split: sum.splits if_splits)

lemma readCommand_frame:
  "readCommand s = Inr s1 \<Longrightarrow>
     cx s1 = cx s \<and> cy s1 = cy s \<and> coordsLen s1 = coordsLen s \<and> currentEnd s1 = currentEnd s
     \<and> flatCoordinates s1 = flatCoordinates s \<and> ends s1 = ends s"
  by (auto simp: readCommand_def split: if_splits sum.splits)

lemma moveOrLineTo_effect:
  assumes "moveOrLineTo s = Inr s'"
  shows "\<exists>n1 p1 n2 p2. readVarint (rd s) = Inr (n1, p1) \<and> readVarint p1 = Inr (n2, p2)
           \<and> rd s' = p2 \<and> cmd s' = cmd s \<and> len s' = len s
           \<and> cx s' = cx s + zigzag n1 \<and> cy s' = cy s + zigzag n2
           \<and> flatCoordinates s' = flatCoordinates s @ [cx s + zigzag n1, cy s + zigzag n2]
           \<and> coordsLen s' = coordsLen s + 2
           \<and> ends s' = (if cmd s = 1 \<and> currentEnd s < coordsLen s then ends s @ [coordsLen s] else ends s)
           \<and> currentEnd s' = (if cmd s = 1 \<and> currentEnd s < coordsLen s then coordsLen s else currentEnd s)"
  using assms
  by (auto simp: moveOrLineTo_def readSVarint_def Let_def split: sum.splits if_splits)

lemma closePath_effect:
  "cmd (closePath s) = cmd s \<and> len (closePath s) = len s \<and> rd (closePath s) = rd s
     \<and> cx (closePath s) = cx s \<and> cy (closePath s) = cy s
     \<and> ends (closePath s) = ends s \<and> currentEnd (closePath s) = currentEnd s
     \<and> flatCoordinates (closePath s) =
         (if currentEnd s < coordsLen s
          then flatCoordinates s @ [flatCoordinates s ! currentEnd s, flatCoordinates s ! (currentEnd s + 1)]
          else flatCoordinates s)
     \<and> coordsLen (closePath s) = (if currentEnd s < coordsLen s then coordsLen s + 2 else coordsLen s)"
  by (simp add: closePath_def)

lemma sorted_wrt_less_last:
  "sorted_wrt (<) xs \<Longrightarrow> (x::nat) \<in> set xs \<Longrightarrow> x \<le> last xs"
proof (induction xs)
  case Nil
  then show ?case by simp
next
  case (Cons a xs)
  show ?case
  proof (cases "xs = []")
    case True
    with Cons.prems show ?thesis by simp
  next
    case False
    then have l: "last xs \<in> set xs" by simp
    have "a < last xs"
      using Cons.prems(1) l by auto
    moreover have "x \<in> set xs \<Longrightarrow> x \<le> last xs"
      using Cons.IH Cons.prems(1) by simp
    ultimately show ?thesis
      using Cons.prems(2) False by auto
  qed
qed

lemma sorted_wrt_less_snoc:
  assumes "sorted_wrt (<) xs" "xs \<noteq> []" "last xs < (c::nat)"
  shows "sorted_wrt (<) (xs @ [c])"
proof -
  have "\<forall>x \<in> set xs. x < c"
    using sorted_wrt_less_last [OF assms(1)] assms(3) by fastforce
  with assms(1) show ?thesis
    by (simp add: sorted_wrt_append)
qed

lemma geomInv_push:
  assumes "geomInv s" "currentEnd s < coordsLen s"
  shows "geomInv (s\<lparr>ends := ends s @ [coordsLen s], currentEnd := coordsLen s\<rparr>)"
proof -
  have "sorted_wrt (<) ((0 # ends s) @ [coordsLen s])"
    using assms by (intro sorted_wrt_less_snoc) (simp_all add: geomInv_def)
  then show ?thesis
    using assms by (auto simp: geomInv_def)
qed

lemma geomInv_frame:
  assumes "geomInv s" "coordsLen s1 = coordsLen s" "currentEnd s1 = currentEnd s"
    "flatCoordinates s1 = flatCoordinates s" "ends s1 = ends s"
  shows "geomInv s1"
  using assms by (auto simp: geomInv_def)

lemma geomInv_point:
  assumes "geomInv s"
  shows "geomInv (s\<lparr>flatCoordinates := flatCoordinates s @ [a, b], coordsLen := coordsLen s + 2\<rparr>)"
  using assms by (auto simp: geomInv_def)

lemma geomInv_moveOrLineTo:
  assumes "geomInv s" "moveOrLineTo s = Inr s'"
  shows "geomInv s'"
proof -
  obtain dx p1 dy p2 where r: "readSVarint (rd s) = Inr (dx, p1)" "readSVarint p1 = Inr (dy, p2)"
    using assms(2) by (auto simp: moveOrLineTo_def split: sum.splits)
  let ?s1 = "s\<lparr>rd := p2, cx := cx s + dx, cy := cy s + dy\<rparr>"
  let ?s2 = "if cmd ?s1 = 1 \<and> currentEnd ?s1 < coordsLen ?s1
             then ?s1\<lparr>ends := ends ?s1 @ [coordsLen ?s1], currentEnd := coordsLen ?s1\<rparr> else ?s1"
  have s': "s' = ?s2\<lparr>flatCoordinates := flatCoordinates ?s2 @ [cx ?s2, cy ?s2],
                      coordsLen := coordsLen ?s2 + 2\<rparr>"
    using assms(2) r by (simp add: moveOrLineTo_def Let_def)
  have 1: "geomInv ?s1"
    by (rule geomInv_frame [OF assms(1)]) simp_all
  have 2: "geomInv ?s2"
    using 1 geomInv_push [of ?s1] by (simp del: gstate.simps)
  show ?thesis
    unfolding s' using 2 by (rule geomInv_point)
qed

lemma geomInv_closePath:
  assumes "geomInv s"
  shows "geomInv (closePath s)"
proof (cases "currentEnd s < coordsLen s")
  case True
  then have "closePath s =
      s\<lparr>flatCoordinates := flatCoordinates s @
           [flatCoordinates s ! currentEnd s, flatCoordinates s ! (currentEnd s + 1)],
        coordsLen := coordsLen s + 2\<rparr>"
    by (simp add: closePath_def)
  then show ?thesis
    using geomInv_point [OF assms] by simp
next
  case False
  then show ?thesis
    using assms by (simp add: closePath_def)
qed

lemma geomInv_step:
  assumes "geomInv s" "geomStep s = Inr s'"
  shows "geomInv s'"
  using assms(2)
proof (cases rule: geomStep_cases)
  case (1 s1)
  have "geomInv (s1\<lparr>len := len s1 - 1\<rparr>)"
    using readCommand_frame [OF 1(1)] by (intro geomInv_frame [OF assms(1)]) simp_all
  then show ?thesis
    using 1(3) by (rule geomInv_moveOrLineTo)
next
  case (2 s1)
  have "geomInv (s1\<lparr>len := len s1 - 1\<rparr>)"
    using readCommand_frame [OF 2(1)] by (intro geomInv_frame [OF assms(1)]) simp_all
  then show ?thesis
    unfolding 2(3) by (rule geomInv_closePath)
qed

lemma geomLoop_invariant:
  assumes "geomLoop e s = Some (Inr t)" and "I s"
    and step: "\<And>a b. I a \<Longrightarrow> geomStep a = Inr b \<Longrightarrow> I b"
  shows "I t \<and> \<not> pos (rd t) < e"
proof -
  have "\<forall>t. y = Inr t \<longrightarrow> I s \<longrightarrow> I t \<and> \<not> pos (rd t) < e" if "geomLoop e s = Some y" for y
  proof (induction rule: geomLoop.raw_induct [OF _ that])
    case (1 loop e s y)
    show ?case
    proof (intro allI impI)
      fix t assume y: "y = Inr t" and I: "I s"
      show "I t \<and> \<not> pos (rd t) < e"
      proof (cases "pos (rd s) < e")
        case False
        with 1(2) y I show ?thesis by simp
      next
        case True
        with 1(2) y obtain s' where s': "geomStep s = Inr s'" "loop e s' = Some (Inr t)"
          by (auto split: sum.splits)
        from 1(1) [OF s'(2)] step [OF I s'(1)] show ?thesis by simp
      qed
    qed
  qed
  with assms(1,2) show ?thesis by blast
qed

lemma geomIter_loop:
  "geomIter e n s = Inr t \<Longrightarrow> geomLoop e s = geomLoop e t"
proof (induction n arbitrary: s)
  case 0
  then show ?case by simp
next
  case (Suc n)
  show ?case
  proof (cases "pos (rd s) < e")
    case False
    with Suc.prems show ?thesis by simp
  next
    case True
    with Suc.prems obtain s' where s': "geomStep s = Inr s'" "geomIter e n s' = Inr t"
      by (auto split: sum.splits)
    have "geomLoop e s = geomLoop e s'"
      using True s'(1) by (subst geomLoop.simps) simp
    with Suc.IH [OF s'(2)] show ?thesis by simp
  qed
qed

lemma geomIter_error:
  "geomIter e n s = Inl err \<Longrightarrow> geomLoop e s = Some (Inl err)"
proof (induction n arbitrary: s)
  case 0
  then show ?case by simp
next
  case (Suc n)
  from Suc.prems have lt: "pos (rd s) < e"
    by (auto split: if_splits)
  show ?case
  proof (cases "geomStep s")
    case (Inl a)
    with Suc.prems lt have "a = err" by simp
    with Inl lt show ?thesis by (subst geomLoop.simps) simp
  next
    case (Inr s')
    with Suc.prems lt have "geomIter e n s' = Inl err" by simp
    from Suc.IH [OF this] Inr lt show ?thesis by (subst geomLoop.simps) simp
  qed
qed

lemma geomStep_invalid:
  assumes "readCommand s = Inr s1" "cmd s1 \<noteq> 1" "cmd s1 \<noteq> 2" "cmd s1 \<noteq> 7"
  shows "geomStep s = Inl InvalidGeometryCommand"
  using assms by (simp add: geomStep_def Let_def)


lemma readRawGeometry_Inr:
  assumes "readRawGeometry p (Some g) fc es = Some (Inr t)"
  obtains n p1 s where "readVarint (p\<lparr>pos := g\<rparr>) = Inr (n, p1)"
    "geomLoop (n + pos p1) (geomInit p1 fc es) = Some (Inr s)" "t = flushEnd s"
  using assms
  by (auto simp: readRawGeometry_def split: sum.splits option.splits)

lemma geomInv_init: "geomInv (geomInit p [] [])"
  by (simp add: geomInv_def geomInit_def)

lemma geomInv_flushEnd:
  assumes "geomInv s"
  shows "geomInv (flushEnd s) \<and> currentEnd (flushEnd s) = coordsLen (flushEnd s)"
proof (cases "currentEnd s < coordsLen s")
  case True
  then show ?thesis
    using geomInv_push [OF assms True] by (simp add: flushEnd_def)
next
  case False
  then show ?thesis
    using assms by (auto simp: flushEnd_def geomInv_def)
qed

lemma readRawGeometry_inv:
  assumes "readRawGeometry p go [] [] = Some (Inr t)"
  shows "geomInv t \<and> currentEnd t = coordsLen t"
proof -
  from assms obtain g where g: "go = Some g"
    by (cases go) (simp_all add: readRawGeometry_def)
  from assms [unfolded g] obtain n p1 s where
    s: "geomLoop (n + pos p1) (geomInit p1 [] []) = Some (Inr s)" "t = flushEnd s"
    by (rule readRawGeometry_Inr)
  have "geomInv s"
    using geomLoop_invariant [OF s(1), of geomInv] geomInv_init geomInv_step by blast
  then show ?thesis
    unfolding s(2) by (rule geomInv_flushEnd)
qed

lemma readRawGeometry_last_end:
  assumes "readRawGeometry p go [] [] = Some (Inr t)"
  shows "(flatCoordinates t = [] \<longrightarrow> ends t = [])
       \<and> (flatCoordinates t \<noteq> [] \<longrightarrow> ends t \<noteq> [] \<and> last (ends t) = length (flatCoordinates t))"
proof -
  from readRawGeometry_inv [OF assms]
  have a: "length (flatCoordinates t) = last (0 # ends t)" and b: "sorted_wrt (<) (0 # ends t)"
    by (simp_all add: geomInv_def)
  have "ends t \<noteq> [] \<Longrightarrow> 0 < last (ends t)"
    using b by (cases "ends t") auto
  with a show ?thesis
    by (cases "ends t = []") auto
qed

lemma exA_result:
  "readRawGeometry \<lparr>buf = exA, pos = 0\<rparr> (Some 0) [] [] =
     Some (Inr \<lparr>rd = \<lparr>buf = exA, pos = 10\<rparr>, cmd = 1, len = 0, cx = 2, cy = 9, coordsLen = 6,
                currentEnd = 6, flatCoordinates = [2, 3, 3, 4, 2, 9], ends = [4, 6]\<rparr>)"
  by (simp add: geom_eval pbf_eval exA_def)

lemma exB_result:
  "readRawGeometry \<lparr>buf = exB, pos = 0\<rparr> (Some 0) [] [] =
     Some (Inr \<lparr>rd = \<lparr>buf = exB, pos = 13\<rparr>, cmd = 2, len = 0, cx = 1, cy = 5, coordsLen = 10,
                currentEnd = 10, flatCoordinates = [0, 0, 4, 0, 0, 4, 0, 0, 1, 5], ends = [10]\<rparr>)"
  by (simp add: geom_eval pbf_eval exB_def)

lemma geomIter_numeral:
  "geomIter e (numeral n) s =
     (if pos (rd s) < e then
        (case geomStep s of
           Inl er \<Rightarrow> Inl er
         | Inr s' \<Rightarrow> geomIter e (pred_numeral n) s')
      else Inr s)"
  by (simp add: numeral_eq_Suc)


section \<open>C8: coordinates are deltas against a running cursor\<close>

text \<open>
  C8. The cursor starts at (0, 0). A pass of the loop that executes MoveTo or LineTo reads
  two varints after the command header, adds their zig-zag decodings to the cursor and
  appends the new cursor to the flat coordinates; MoveTo and LineTo do this alike, so the
  cursor is carried over sub-path boundaries. A pass that executes ClosePath leaves the
  cursor as it is. Nothing else changes the cursor: it is never reset. The zig-zag decoding
  maps \<open>2 * k\<close> to \<open>k\<close> and \<open>2 * k + 1\<close> to \<open>- k - 1\<close>.
\<close>

theorem cursor_running_deltas:
  "cx (geomInit p fc es) = 0 \<and> cy (geomInit p fc es) = 0
   \<and> (geomStep s = Inr s' \<longrightarrow>
        (cmd s' = 1 \<or> cmd s' = 2 \<longrightarrow>
           (\<exists>s1 n1 p1 n2 p2.
              readCommand s = Inr s1 \<and> readVarint (rd s1) = Inr (n1, p1) \<and> readVarint p1 = Inr (n2, p2)
              \<and> cx s' = cx s + zigzag n1 \<and> cy s' = cy s + zigzag n2
              \<and> flatCoordinates s' = flatCoordinates s @ [cx s', cy s']))
        \<and> (cmd s' = 7 \<longrightarrow> cx s' = cx s \<and> cy s' = cy s))
   \<and> zigzag (2 * k) = int k \<and> zigzag (2 * k + 1) = - int k - 1"
proof -
  have "\<exists>s1 n1 p1 n2 p2.
          readCommand s = Inr s1 \<and> readVarint (rd s1) = Inr (n1, p1) \<and> readVarint p1 = Inr (n2, p2)
          \<and> cx s' = cx s + zigzag n1 \<and> cy s' = cy s + zigzag n2
          \<and> flatCoordinates s' = flatCoordinates s @ [cx s', cy s']"
    if step: "geomStep s = Inr s'" and c: "cmd s' = 1 \<or> cmd s' = 2"
    using step
  proof (cases rule: geomStep_cases)
    case (1 s1)
    from moveOrLineTo_effect [OF 1(3)] readCommand_frame [OF 1(1)] 1(1)
    show ?thesis by auto
  next
    case (2 s1)
    with c closePath_effect [of "s1\<lparr>len := len s1 - 1\<rparr>"] show ?thesis by simp
  qed
  moreover have "cx s' = cx s \<and> cy s' = cy s"
    if step: "geomStep s = Inr s'" and c: "cmd s' = 7"
    using step
  proof (cases rule: geomStep_cases)
    case (1 s1)
    from moveOrLineTo_effect [OF 1(3)] 1(2) c show ?thesis by auto
  next
    case (2 s1)
    with readCommand_frame [OF 2(1)] closePath_effect [of "s1\<lparr>len := len s1 - 1\<rparr>"]
    show ?thesis by simp
  qed
  ultimately show ?thesis
    using zigzag_even [of k] zigzag_odd [of k] by (simp add: geomInit_def)
qed

lemma exA_iter2: "geomIter 10 2 (geomInit \<lparr>buf = exA, pos = 1\<rparr> [] []) = Inr sA2"
  by (simp add: geom_eval pbf_eval exA_def geomIter_numeral sA2_def)

lemma exA_step3: "geomStep sA2 = Inr sA3"
  by (simp add: geom_eval pbf_eval exA_def sA2_def sA3_def)

theorem cursor_running_deltas_witness:
  "geomStep sA2 = Inr sA3 \<and> cmd sA3 = 1 \<and> cx sA2 = 3 \<and> cy sA2 = 4
   \<and> (\<exists>s1 n1 p1 n2 p2.
         readCommand sA2 = Inr s1 \<and> readVarint (rd s1) = Inr (n1, p1) \<and> readVarint p1 = Inr (n2, p2)
         \<and> cx sA3 = cx sA2 + zigzag n1 \<and> cy sA3 = cy sA2 + zigzag n2
         \<and> flatCoordinates sA3 = flatCoordinates sA2 @ [cx sA3, cy sA3])
   \<and> flatCoordinates sA3 = [2, 3, 3, 4, 2, 9]"
proof -
  have c: "cmd sA3 = 1" and d: "cx sA2 = 3" "cy sA2 = 4" "flatCoordinates sA3 = [2, 3, 3, 4, 2, 9]"
    by (simp_all add: sA3_def sA2_def)
  from cursor_running_deltas [of "rd sA2" "[]" "[]" sA2 sA3 0] exA_step3 c
  have "\<exists>s1 n1 p1 n2 p2.
         readCommand sA2 = Inr s1 \<and> readVarint (rd s1) = Inr (n1, p1) \<and> readVarint p1 = Inr (n2, p2)
         \<and> cx sA3 = cx sA2 + zigzag n1 \<and> cy sA3 = cy sA2 + zigzag n2
         \<and> flatCoordinates sA3 = flatCoordinates sA2 @ [cx sA3, cy sA3]"
    by blast
  with exA_step3 c d show ?thesis by blast
qed


section \<open>C3: how the ends are recorded\<close>

lemma geomStep_ends:
  assumes "geomStep s = Inr s'"
  shows "(cmd s' = 1 \<longrightarrow>
            ends s' = (if currentEnd s < coordsLen s then ends s @ [coordsLen s] else ends s)
          \<and> currentEnd s' = (if currentEnd s < coordsLen s then coordsLen s else currentEnd s))
       \<and> (cmd s' = 2 \<longrightarrow> ends s' = ends s \<and> currentEnd s' = currentEnd s)
       \<and> (cmd s' = 7 \<longrightarrow>
            ends s' = ends s \<and> currentEnd s' = currentEnd s
          \<and> flatCoordinates s' =
              (if currentEnd s < coordsLen s
               then flatCoordinates s @
                      [flatCoordinates s ! currentEnd s, flatCoordinates s ! (currentEnd s + 1)]
               else flatCoordinates s))"
  using assms
proof (cases rule: geomStep_cases)
  case (1 s1)
  from moveOrLineTo_effect [OF 1(3)] readCommand_frame [OF 1(1)] 1(2)
  show ?thesis by auto
next
  case (2 s1)
  with readCommand_frame [OF 2(1)] closePath_effect [of "s1\<lparr>len := len s1 - 1\<rparr>"]
  show ?thesis by simp
qed

text \<open>
  C3, as the code has it. A pass that executes MoveTo pushes the current coordinate count
  onto \<open>ends\<close> if at least one coordinate was appended since the last recorded end, and
  nothing otherwise. A pass that executes ClosePath with a non-empty current sub-path
  appends a copy of the sub-path's first point; it records no end: \<open>ends\<close> and
  \<open>currentEnd\<close> are unchanged, and the end is recorded by the next MoveTo or by the flush
  after the loop. After the loop the end of a sub-path still open is pushed, so that the
  last end of a non-empty result is the number of coordinates.
\<close>

theorem ends_bookkeeping:
  "(geomStep s = Inr s' \<longrightarrow>
      (cmd s' = 1 \<longrightarrow>
          ends s' = (if currentEnd s < coordsLen s then ends s @ [coordsLen s] else ends s)
        \<and> currentEnd s' = (if currentEnd s < coordsLen s then coordsLen s else currentEnd s))
    \<and> (cmd s' = 7 \<longrightarrow>
          ends s' = ends s \<and> currentEnd s' = currentEnd s
        \<and> flatCoordinates s' =
            (if currentEnd s < coordsLen s
             then flatCoordinates s @
                    [flatCoordinates s ! currentEnd s, flatCoordinates s ! (currentEnd s + 1)]
             else flatCoordinates s)))
   \<and> (readRawGeometry p (Some g) [] [] = Some (Inr t) \<longrightarrow>
        (\<exists>n p1 u. readVarint (p\<lparr>pos := g\<rparr>) = Inr (n, p1)
           \<and> geomLoop (n + pos p1) (geomInit p1 [] []) = Some (Inr u)
           \<and> ends t = (if currentEnd u < coordsLen u then ends u @ [coordsLen u] else ends u))
      \<and> (flatCoordinates t = [] \<longrightarrow> ends t = [])
      \<and> (flatCoordinates t \<noteq> [] \<longrightarrow> ends t \<noteq> [] \<and> last (ends t) = length (flatCoordinates t)))"
proof -
  have "\<exists>n p1 u. readVarint (p\<lparr>pos := g\<rparr>) = Inr (n, p1)
           \<and> geomLoop (n + pos p1) (geomInit p1 [] []) = Some (Inr u)
           \<and> ends t = (if currentEnd u < coordsLen u then ends u @ [coordsLen u] else ends u)"
    if "readRawGeometry p (Some g) [] [] = Some (Inr t)"
  proof -
    from that obtain n p1 u where
      "readVarint (p\<lparr>pos := g\<rparr>) = Inr (n, p1)"
      "geomLoop (n + pos p1) (geomInit p1 [] []) = Some (Inr u)" "t = flushEnd u"
      by (rule readRawGeometry_Inr)
    then show ?thesis
      by (auto simp: flushEnd_def)
  qed
  then show ?thesis
    using geomStep_ends [of s s'] readRawGeometry_last_end [of p "Some g" t] by blast
qed

theorem ends_bookkeeping_witness:
  "geomStep sA2 = Inr sA3 \<and> cmd sA3 = 1 \<and> currentEnd sA2 < coordsLen sA2
   \<and> ends sA3 = ends sA2 @ [coordsLen sA2] \<and> currentEnd sA3 = coordsLen sA2
   \<and> geomStep sB3 = Inr sB4 \<and> cmd sB4 = 7 \<and> currentEnd sB3 < coordsLen sB3
   \<and> ends sB4 = ends sB3 \<and> currentEnd sB4 = currentEnd sB3
   \<and> flatCoordinates sB4 =
        flatCoordinates sB3 @ [flatCoordinates sB3 ! currentEnd sB3, flatCoordinates sB3 ! (currentEnd sB3 + 1)]
   \<and> (\<exists>t. readRawGeometry \<lparr>buf = exA, pos = 0\<rparr> (Some 0) [] [] = Some (Inr t)
          \<and> flatCoordinates t \<noteq> [] \<and> ends t \<noteq> [] \<and> last (ends t) = length (flatCoordinates t))"
proof -
  have a: "geomStep sA2 = Inr sA3" "cmd sA3 = 1" "currentEnd sA2 < coordsLen sA2"
    using exA_step3 by (simp_all add: sA2_def sA3_def)
  have b: "geomStep sB3 = Inr sB4"
    by (simp add: geom_eval pbf_eval exB_def sB3_def sB4_def)
  have c: "cmd sB4 = 7" "currentEnd sB3 < coordsLen sB3"
    by (simp_all add: sB3_def sB4_def)
  from ends_bookkeeping [of sA2 sA3 "\<lparr>buf = exA, pos = 0\<rparr>" 0 _] a
  have 1: "ends sA3 = ends sA2 @ [coordsLen sA2] \<and> currentEnd sA3 = coordsLen sA2"
    by simp
  from ends_bookkeeping [of sB3 sB4 "\<lparr>buf = exA, pos = 0\<rparr>" 0 _] b c
  have 2: "ends sB4 = ends sB3 \<and> currentEnd sB4 = currentEnd sB3
     \<and> flatCoordinates sB4 =
        flatCoordinates sB3 @ [flatCoordinates sB3 ! currentEnd sB3, flatCoordinates sB3 ! (currentEnd sB3 + 1)]"
    by simp
  let ?t = "\<lparr>rd = \<lparr>buf = exA, pos = 10\<rparr>, cmd = 1, len = 0, cx = 2, cy = 9, coordsLen = 6,
                currentEnd = 6, flatCoordinates = [2, 3, 3, 4, 2, 9], ends = [4, 6]\<rparr>"
  from ends_bookkeeping [of sA2 sA3 "\<lparr>buf = exA, pos = 0\<rparr>" 0 ?t] exA_result
  have 3: "ends ?t \<noteq> [] \<and> last (ends ?t) = length (flatCoordinates ?t)"
    by simp
  have "readRawGeometry \<lparr>buf = exA, pos = 0\<rparr> (Some 0) [] [] = Some (Inr ?t)
          \<and> flatCoordinates ?t \<noteq> [] \<and> ends ?t \<noteq> [] \<and> last (ends ?t) = length (flatCoordinates ?t)"
    using exA_result 3 by simp
  then have 4: "\<exists>t. readRawGeometry \<lparr>buf = exA, pos = 0\<rparr> (Some 0) [] [] = Some (Inr t)
          \<and> flatCoordinates t \<noteq> [] \<and> ends t \<noteq> [] \<and> last (ends t) = length (flatCoordinates t)"
    by (rule exI)
  from a b c 1 2 4 show ?thesis by blast
qed

text \<open>
  The claim as stated has ClosePath record the end. On \<open>exB\<close> the pass that executes
  ClosePath leaves \<open>ends\<close> empty with eight coordinates decoded, and the LineTo after it
  continues the same sub-path: the only end recorded is 10.
\<close>

theorem ends_on_closePath_counterexample:
  "geomIter 13 3 (geomInit \<lparr>buf = exB, pos = 1\<rparr> [] []) = Inr sB3
   \<and> geomStep sB3 = Inr sB4 \<and> cmd sB4 = 7 \<and> coordsLen sB4 = 8 \<and> ends sB4 = [] \<and> currentEnd sB4 = 0
   \<and> map_option (map_sum id ends) (readRawGeometry \<lparr>buf = exB, pos = 0\<rparr> (Some 0) [] []) = Some (Inr [10])"
proof -
  have "geomIter 13 3 (geomInit \<lparr>buf = exB, pos = 1\<rparr> [] []) = Inr sB3"
    by (simp add: geom_eval pbf_eval exB_def geomIter_numeral sB3_def)
  moreover have "geomStep sB3 = Inr sB4"
    by (simp add: geom_eval pbf_eval exB_def sB3_def sB4_def)
  moreover have "cmd sB4 = 7 \<and> coordsLen sB4 = 8 \<and> ends sB4 = [] \<and> currentEnd sB4 = 0"
    by (simp add: sB4_def)
  ultimately show ?thesis
    by (simp add: exB_result)
qed

section \<open>The buffer is never written\<close>

lemma skip_buf: "skip val p = Inr p' \<Longrightarrow> buf p' = buf p"
  by (auto simp: skip_def Let_def split: if_splits sum.splits dest: readVarint_pos)

lemma valueLoop_buf: "valueLoop e v p = Inr (v', p') \<Longrightarrow> buf p' = buf p"
proof (induction e v p rule: valueLoop.induct)
  case (1 e v p)
  show ?case
  proof (cases "pos p < e")
    case False
    with "1.prems" show ?thesis by (simp add: valueLoop.simps)
  next
    case True
    with "1.prems" obtain t p1 v1 p2 where
      r: "readVarint p = Inr (t, p1)" "readValue (js_sar3 t) p1 = Inr (v1, p2)"
        "valueLoop e v1 p2 = Inr (v', p')"
      by (subst (asm) valueLoop.simps) (auto split: sum.splits)
    from "1.IH" [OF True r(1) refl r(2) refl r(3)] readVarint_pos [OF r(1)] readValue_pos [OF r(2)]
    show ?thesis by simp
  qed
qed

lemma propertiesLoop_buf: "propertiesLoop e f p = Inr (f', p') \<Longrightarrow> buf p' = buf p"
proof (induction e f p rule: propertiesLoop.induct)
  case (1 e f p)
  show ?case
  proof (cases "pos p < e")
    case False
    with "1.prems" show ?thesis by (simp add: propertiesLoop.simps)
  next
    case True
    with "1.prems" obtain ki p1 vi p2 where
      r: "readVarint p = Inr (ki, p1)" "readVarint p1 = Inr (vi, p2)"
        "propertiesLoop e
           (f\<lparr>properties :=
                AList.update (jsKey (jsIndex (keys (layer f)) ki))
                  (case jsIndex (vals (layer f)) vi of None \<Rightarrow> Undefined | Some v \<Rightarrow> v)
                  (properties f)\<rparr>) p2 = Inr (f', p')"
      by (subst (asm) propertiesLoop.simps) (auto split: sum.splits)
    from "1.IH" [OF True r(1) refl r(2) refl r(3)] readVarint_pos [OF r(1)] readVarint_pos [OF r(2)]
    show ?thesis by simp
  qed
qed

lemma layerPBFReader_buf:
  "layerPBFReader tag l p = Some (Inr (l', p')) \<Longrightarrow> buf p' = buf p"
  by (auto simp: layerPBFReader_def readString_def split: if_splits sum.splits
      dest!: readVarint_pos valueLoop_buf)

lemma featurePBFReader_buf:
  "featurePBFReader tag f p = Some (Inr (f', p')) \<Longrightarrow> buf p' = buf p"
  by (auto simp: featurePBFReader_def split: if_splits sum.splits
      dest!: readVarint_pos propertiesLoop_buf)

lemma readFieldsLoop_buf:
  assumes "readFieldsLoop rf r e p = Some (Inr (r', p'))"
    and cb: "\<And>tag a q b q'. rf tag a q = Some (Inr (b, q')) \<Longrightarrow> buf q' = buf q"
  shows "buf p' = buf p"
proof -
  have "\<forall>r' p'. y = Inr (r', p') \<longrightarrow> (\<forall>tag a q b q'. rf tag a q = Some (Inr (b, q')) \<longrightarrow> buf q' = buf q)
          \<longrightarrow> buf p' = buf p"
    if "readFieldsLoop rf r e p = Some y" for y
  proof (induction rule: readFieldsLoop.raw_induct [OF _ that])
    case (1 loop rf r e p y)
    show ?case
    proof (intro allI impI)
      fix r' p'
      assume y: "y = Inr (r', p')"
        and cb: "\<forall>tag a q b q'. rf tag a q = Some (Inr (b, q')) \<longrightarrow> buf q' = buf q"
      show "buf p' = buf p"
      proof (cases "pos p < e")
        case False
        with 1(2) y show ?thesis by simp
      next
        case True
        with 1(2) y obtain val p1 r1 p2 where
          a: "readVarint p = Inr (val, p1)" "rf (js_sar3 val) r p1 = Some (Inr (r1, p2))"
          by (auto split: sum.splits option.splits)
        have b12: "buf p2 = buf p"
          using cb a(2) readVarint_pos [OF a(1)] by metis
        show ?thesis
        proof (cases "pos p2 = pos p1")
          case False
          with 1(2) y True a have "loop rf r1 e p2 = Some (Inr (r', p'))" by simp
          from 1(1) [OF this] cb b12 show ?thesis by simp
        next
          case same: True
          with 1(2) y True a obtain p3 where
            c: "skip val p2 = Inr p3" "loop rf r1 e p3 = Some (Inr (r', p'))"
            by (auto split: sum.splits)
          from 1(1) [OF c(2)] cb b12 skip_buf [OF c(1)] show ?thesis by simp
        qed
      qed
    qed
  qed
  with assms show ?thesis by blast
qed

lemma readFields_buf:
  assumes "readFields rf r e p = Some (Inr (r', p'))"
    and cb: "\<And>tag a q b q'. rf tag a q = Some (Inr (b, q')) \<Longrightarrow> buf q' = buf q"
  shows "buf p' = buf p"
  using assms(1) cb unfolding readFields_def by (rule readFieldsLoop_buf)

lemma layersPBFReader_buf:
  assumes "layersPBFReader tag ls p = Some (Inr (ls', p'))"
  shows "buf p' = buf p"
proof (cases "tag = 3")
  case False
  with assms show ?thesis by (simp add: layersPBFReader_def)
next
  case True
  with assms obtain n p1 l p2 where
    a: "readVarint p = Inr (n, p1)"
      "readFields layerPBFReader
         \<lparr>version = None, name = None, extent = None, keys = [], vals = [], features = []\<rparr>
         (Some (n + pos p1)) p1 = Some (Inr (l, p2))" "p' = p2"
    by (auto simp: layersPBFReader_def split: sum.splits option.splits)
  from readFields_buf [OF a(2) layerPBFReader_buf] readVarint_pos [OF a(1)] a(3)
  show ?thesis by simp
qed

lemma readRawFeature_buf:
  assumes "readRawFeature p l i = Some (Inr (raw, p'))"
  shows "buf p' = buf p"
proof -
  from assms obtain n p1 where
    a: "readVarint (p\<lparr>pos := features l ! i\<rparr>) = Inr (n, p1)"
      "readFields featurePBFReader
         \<lparr>layer = l, ftype = 0, properties = [], fid = None, geometry = None\<rparr>
         (Some (n + pos p1)) p1 = Some (Inr (raw, p'))"
    by (auto simp: readRawFeature_def split: sum.splits)
  from readFields_buf [OF a(2) featurePBFReader_buf] readVarint_pos [OF a(1)]
  show ?thesis by simp
qed

lemma pbf_at: "buf p = b \<Longrightarrow> p\<lparr>pos := a\<rparr> = \<lparr>buf = b, pos = a\<rparr>"
  by (cases p) simp

lemma readRawFeature_pos: "buf p = b \<Longrightarrow> readRawFeature p l i = readRawFeature \<lparr>buf = b, pos = 0\<rparr> l i"
  by (simp add: readRawFeature_def pbf_at)

lemma geomStep_buf: "geomStep s = Inr s' \<Longrightarrow> buf (rd s') = buf (rd s)"
  by (auto simp: geomStep_def readCommand_def moveOrLineTo_def closePath_def Let_def
      split: sum.splits if_splits dest!: readVarint_pos readSVarint_pos)

lemma readRawGeometry_buf:
  assumes "readRawGeometry p go fc es = Some (Inr t)"
  shows "buf (rd t) = buf p"
proof -
  from assms obtain g where g: "go = Some g"
    by (cases go) (simp_all add: readRawGeometry_def)
  from assms [unfolded g] obtain n p1 s where
    s: "readVarint (p\<lparr>pos := g\<rparr>) = Inr (n, p1)"
      "geomLoop (n + pos p1) (geomInit p1 fc es) = Some (Inr s)" "t = flushEnd s"
    by (rule readRawGeometry_Inr)
  have "buf (rd s) = buf p1"
    using geomLoop_invariant [OF s(2), of "\<lambda>u. buf (rd u) = buf p1"] geomStep_buf
    by (simp add: geomInit_def)
  with readVarint_pos [OF s(1)] s(3) show ?thesis
    by (simp add: flushEnd_def)
qed

lemma createFeature_buf:
  assumes "createFeature fmt cw p raw = Some (Inr (f, p'))"
  shows "buf p' = buf p"
proof (cases "ftype raw = 0")
  case True
  with assms show ?thesis by (simp add: createFeature_def)
next
  case False
  with assms obtain s where
    "readRawGeometry p (geometry raw) [] [] = Some (Inr s)" "p' = rd s"
    by (auto simp: createFeature_def Let_def split: option.splits sum.splits if_splits)
  with readRawGeometry_buf show ?thesis by simp
qed

lemma readRawGeometry_pos:
  "buf p = b \<Longrightarrow> readRawGeometry p (Some g) fc es = readRawGeometry \<lparr>buf = b, pos = 0\<rparr> (Some g) fc es"
  by (simp add: readRawGeometry_def pbf_at)

section \<open>The loops over features and layers\<close>

lemma createFeature_lastExtent [simp]:
  "createFeature (fmt\<lparr>lastExtent := x\<rparr>) cw p raw = createFeature fmt cw p raw"
  by (auto simp: createFeature_def Let_def split: option.splits sum.splits)

lemma selected_lastExtent [simp]: "selected (fmt\<lparr>lastExtent := x\<rparr>) nm = selected fmt nm"
  by (simp add: selected_def)

lemma featuresLoop_step:
  assumes "featuresLoop fmt cw l i p fs = Some (Inr (fs', p'))" "i < length (features l)"
  obtains raw p1 f p2 where "readRawFeature p l i = Some (Inr (raw, p1))"
    "createFeature fmt cw p1 raw = Some (Inr (f, p2))"
    "featuresLoop fmt cw l (i + 1) p2 (fs @ [f]) = Some (Inr (fs', p'))"
  using assms
  by (subst (asm) featuresLoop.simps) (auto split: option.splits sum.splits)

lemma featuresLoop_result:
  assumes "featuresLoop fmt cw l i p fs = Some (Inr (fs', p'))"
  shows "length fs' = length fs + (length (features l) - i) \<and> take (length fs) fs' = fs
       \<and> buf p' = buf p"
  using assms
proof (induction fmt cw l i p fs rule: featuresLoop.induct)
  case (1 fmt cw l i p fs)
  show ?case
  proof (cases "i < length (features l)")
    case False
    with "1.prems" show ?thesis by (simp add: featuresLoop.simps)
  next
    case True
    from "1.prems" True obtain raw p1 f p2 where
      a: "readRawFeature p l i = Some (Inr (raw, p1))"
        "createFeature fmt cw p1 raw = Some (Inr (f, p2))"
        "featuresLoop fmt cw l (i + 1) p2 (fs @ [f]) = Some (Inr (fs', p'))"
      by (rule featuresLoop_step)
    from "1.IH" [OF True a(1) refl refl a(2) refl refl a(3)]
    have ih: "length fs' = length (fs @ [f]) + (length (features l) - (i + 1))"
      "take (length (fs @ [f])) fs' = fs @ [f]" "buf p' = buf p2"
      by simp_all
    have "take (length fs) fs' = take (length fs) (take (length (fs @ [f])) fs')"
      by (simp add: min_def)
    also have "\<dots> = fs"
      unfolding ih(2) by simp
    finally have "take (length fs) fs' = fs" .
    with ih True readRawFeature_buf [OF a(1)] createFeature_buf [OF a(2)] show ?thesis
      by simp
  qed
qed

lemma featuresLoop_nth:
  assumes "featuresLoop fmt cw l i p fs = Some (Inr (fs', p'))"
    and "i \<le> j" "j < length (features l)" "buf p = b"
  shows "\<exists>raw p1 p2. readRawFeature \<lparr>buf = b, pos = 0\<rparr> l j = Some (Inr (raw, p1))
           \<and> createFeature fmt cw p1 raw = Some (Inr (fs' ! (length fs + (j - i)), p2))"
  using assms
proof (induction fmt cw l i p fs rule: featuresLoop.induct)
  case (1 fmt cw l i p fs)
  from "1.prems" have lt: "i < length (features l)" by simp
  from "1.prems"(1) lt obtain raw p1 f p2 where
    a: "readRawFeature p l i = Some (Inr (raw, p1))"
      "createFeature fmt cw p1 raw = Some (Inr (f, p2))"
      "featuresLoop fmt cw l (i + 1) p2 (fs @ [f]) = Some (Inr (fs', p'))"
    by (rule featuresLoop_step)
  have b2: "buf p2 = b"
    using readRawFeature_buf [OF a(1)] createFeature_buf [OF a(2)] "1.prems"(4) by simp
  show ?case
  proof (cases "j = i")
    case True
    from featuresLoop_result [OF a(3)] have "take (length (fs @ [f])) fs' = fs @ [f]" by simp
    then have "fs' ! length fs = (fs @ [f]) ! length fs"
      by (metis length_append_singleton lessI nth_take)
    then have "fs' ! (length fs + (j - i)) = f"
      using True by simp
    with a(1,2) True readRawFeature_pos [OF "1.prems"(4), of l i] show ?thesis
      by auto
  next
    case False
    with "1.prems" have le: "i + 1 \<le> j" by simp
    have k: "length (fs @ [f]) + (j - (i + 1)) = length fs + (j - i)"
      using le by simp
    from "1.IH" [OF lt a(1) refl refl a(2) refl refl a(3) le "1.prems"(3) b2, unfolded k]
    show ?thesis .
  qed
qed

lemma layersLoop_length:
  assumes "layersLoop cw ls p fs fmt = Some (Inr (fs', fmt'))"
  shows "length fs' =
     length fs + sum_list (map (\<lambda>(nm, l). length (features l)) (filter (\<lambda>(nm, l). selected fmt nm) ls))"
  using assms
proof (induction ls arbitrary: p fs fmt)
  case Nil
  then show ?case by simp
next
  case (Cons a ls)
  obtain nm l where a: "a = (nm, l)" by (cases a)
  show ?case
  proof (cases "selected fmt nm")
    case False
    with Cons.prems a have "layersLoop cw ls p fs fmt = Some (Inr (fs', fmt'))"
      by (auto simp: selected_def split: option.splits)
    from Cons.IH [OF this] False a show ?thesis by simp
  next
    case True
    with Cons.prems a obtain fs1 p1 where
      b: "featuresLoop fmt cw l 0 p fs = Some (Inr (fs1, p1))"
        "layersLoop cw ls p1 fs1 (fmt\<lparr>lastExtent := Some [Some 0, Some 0, extent l, extent l]\<rparr>)
           = Some (Inr (fs', fmt'))"
      by (auto simp: selected_def split: option.splits sum.splits)
    from Cons.IH [OF b(2)] featuresLoop_result [OF b(1)] True a show ?thesis
      by simp
  qed
qed

lemma layersLoop_all_ok:
  assumes "layersLoop cw ls p fs fmt = Some (Inr (fs', fmt'))"
    and "(nm, l) \<in> set ls" "selected fmt nm" "j < length (features l)" "buf p = b"
  shows "\<exists>raw p1 f p2. readRawFeature \<lparr>buf = b, pos = 0\<rparr> l j = Some (Inr (raw, p1))
           \<and> createFeature fmt cw p1 raw = Some (Inr (f, p2))"
  using assms
proof (induction ls arbitrary: p fs fmt)
  case Nil
  then show ?case by simp
next
  case (Cons a ls)
  obtain nm0 l0 where a: "a = (nm0, l0)" by (cases a)
  show ?case
  proof (cases "selected fmt nm0")
    case False
    with Cons.prems a have "layersLoop cw ls p fs fmt = Some (Inr (fs', fmt'))"
      and "(nm, l) \<in> set ls"
      by (auto simp: selected_def split: option.splits)
    from Cons.IH [OF this Cons.prems(3,4,5)] show ?thesis .
  next
    case True
    with Cons.prems a obtain fs1 p1 where
      b: "featuresLoop fmt cw l0 0 p fs = Some (Inr (fs1, p1))"
        "layersLoop cw ls p1 fs1 (fmt\<lparr>lastExtent := Some [Some 0, Some 0, extent l0, extent l0]\<rparr>)
           = Some (Inr (fs', fmt'))"
      by (auto simp: selected_def split: option.splits sum.splits)
    show ?thesis
    proof (cases "(nm, l) = (nm0, l0)")
      case True
      then have "j < length (features l0)" using Cons.prems(4) by simp
      from featuresLoop_nth [OF b(1) _ this Cons.prems(5)] True show ?thesis
        by auto
    next
      case False
      with Cons.prems(2) a have in_ls: "(nm, l) \<in> set ls" by auto
      have "buf p1 = b"
        using featuresLoop_result [OF b(1)] Cons.prems(5) by simp
      from Cons.IH [OF b(2) in_ls _ Cons.prems(4) this] Cons.prems(3) show ?thesis
        by simp
    qed
  qed
qed

lemma set_forIn: "set (forIn xs) = set xs"
  by (auto simp: forIn_def)

lemma readFeatures_Inr:
  assumes "readFeatures fmt cw src = Some (Inr (fs, fmt'))"
  obtains pbfLayers p where
    "readFields layersPBFReader [] None \<lparr>buf = src, pos = 0\<rparr> = Some (Inr (pbfLayers, p))"
    "layersLoop cw (forIn pbfLayers) p [] fmt = Some (Inr (fs, fmt'))" "buf p = src"
proof -
  from assms obtain pbfLayers p where
    a: "readFields layersPBFReader [] None \<lparr>buf = src, pos = 0\<rparr> = Some (Inr (pbfLayers, p))"
      "layersLoop cw (forIn pbfLayers) p [] fmt = Some (Inr (fs, fmt'))"
    by (auto simp: readFeatures_def split: option.splits sum.splits)
  from readFields_buf [OF a(1) layersPBFReader_buf] have "buf p = src" by simp
  with a that show ?thesis by blast
qed

section \<open>C2: an invalid command aborts the whole call\<close>

lemma createFeature_error:
  assumes "readRawGeometry p (geometry raw) [] [] = Some (Inl err)" "ftype raw \<noteq> 0"
  shows "createFeature fmt cw p raw = Some (Inl err)"
  using assms by (simp add: createFeature_def)

lemma featuresLoop_error:
  assumes "i < length (features l)" "readRawFeature p l i = Some (Inr (raw, p1))"
    "createFeature fmt cw p1 raw = Some (Inl err)"
  shows "featuresLoop fmt cw l i p fs = Some (Inl err)"
  using assms by (subst featuresLoop.simps) simp

lemma layersLoop_error:
  assumes "selected fmt nm" "featuresLoop fmt cw l 0 p fs = Some (Inl err)"
  shows "layersLoop cw ((nm, l) # rest) p fs fmt = Some (Inl err)"
  using assms by (auto simp: selected_def split: option.splits)

lemma readRawGeometry_invalid:
  assumes "readVarint (p\<lparr>pos := g\<rparr>) = Inr (n, p1)"
    "geomIter (n + pos p1) k (geomInit p1 [] []) = Inr s" "pos (rd s) < n + pos p1"
    "readCommand s = Inr s1" "cmd s1 \<noteq> 1" "cmd s1 \<noteq> 2" "cmd s1 \<noteq> 7"
  shows "readRawGeometry p (Some g) [] [] = Some (Inl InvalidGeometryCommand)"
proof -
  have "geomStep s = Inl InvalidGeometryCommand"
    using assms(4-7) by (rule geomStep_invalid)
  then have "geomLoop (n + pos p1) s = Some (Inl InvalidGeometryCommand)"
    using assms(3) by (subst geomLoop.simps) simp
  then have "geomLoop (n + pos p1) (geomInit p1 [] []) = Some (Inl InvalidGeometryCommand)"
    using geomIter_loop [OF assms(2)] by simp
  then show ?thesis
    using assms(1) by (simp add: readRawGeometry_def)
qed

lemma readFeatures_needs_every_feature:
  assumes "readFeatures fmt cw src = Some (Inr (fs, fmt'))"
    and "readFields layersPBFReader [] None \<lparr>buf = src, pos = 0\<rparr> = Some (Inr (pbfLayers, p0))"
    and "(nm, l) \<in> set pbfLayers" "selected fmt nm" "j < length (features l)"
  shows "\<exists>raw p1 f p2. readRawFeature \<lparr>buf = src, pos = 0\<rparr> l j = Some (Inr (raw, p1))
           \<and> createFeature fmt cw p1 raw = Some (Inr (f, p2))"
proof -
  from assms(1) obtain ls p where
    a: "readFields layersPBFReader [] None \<lparr>buf = src, pos = 0\<rparr> = Some (Inr (ls, p))"
      "layersLoop cw (forIn ls) p [] fmt = Some (Inr (fs, fmt'))" "buf p = src"
    by (rule readFeatures_Inr)
  from a(1) assms(2) have "ls = pbfLayers" by simp
  with assms(3) have "(nm, l) \<in> set (forIn ls)" by (simp add: set_forIn)
  from layersLoop_all_ok [OF a(2) this assms(4,5) a(3)] show ?thesis .
qed

text \<open>
  C2, as the code has it. When the loop of \<^verbatim>\<open>readRawGeometry_\<close> comes to a command header
  whose command is not 1, 2 or 7, the assertion 59 fails: \<^verbatim>\<open>readRawGeometry_\<close> fails with
  \<open>InvalidGeometryCommand\<close>, and so does \<^verbatim>\<open>createFeature_\<close>. Nothing catches the failure. The
  loop over the features of the layer fails with it and drops the features decoded so
  far, the loop over the layers fails with it, and \<^verbatim>\<open>readFeatures\<close> returns no features for
  a tile in which a feature of a selected layer fails to decode.
\<close>

theorem invalid_command_aborts:
  "(readVarint (p\<lparr>pos := g\<rparr>) = Inr (n, p1)
      \<and> geomIter (n + pos p1) k (geomInit p1 [] []) = Inr s \<and> pos (rd s) < n + pos p1
      \<and> readCommand s = Inr s1 \<and> cmd s1 \<noteq> 1 \<and> cmd s1 \<noteq> 2 \<and> cmd s1 \<noteq> 7
    \<longrightarrow> readRawGeometry p (Some g) [] [] = Some (Inl InvalidGeometryCommand)
      \<and> (ftype raw \<noteq> 0 \<and> geometry raw = Some g
           \<longrightarrow> createFeature fmt cw p raw = Some (Inl InvalidGeometryCommand)))
   \<and> (i < length (features l) \<and> readRawFeature q l i = Some (Inr (raw, p))
      \<and> createFeature fmt cw p raw = Some (Inl err)
    \<longrightarrow> featuresLoop fmt cw l i q fs = Some (Inl err))
   \<and> (selected fmt nm \<and> featuresLoop fmt cw l 0 q fs = Some (Inl err)
    \<longrightarrow> layersLoop cw ((nm, l) # rest) q fs fmt = Some (Inl err))
   \<and> (readFields layersPBFReader [] None \<lparr>buf = src, pos = 0\<rparr> = Some (Inr (pbfLayers, p0))
      \<and> (nm, l) \<in> set pbfLayers \<and> selected fmt nm \<and> j < length (features l)
      \<and> readRawFeature \<lparr>buf = src, pos = 0\<rparr> l j = Some (Inr (raw', q'))
      \<and> createFeature fmt cw q' raw' = Some (Inl err)
    \<longrightarrow> (\<forall>fs' fmt'. readFeatures fmt cw src \<noteq> Some (Inr (fs', fmt'))))"
proof (intro conjI impI allI)
  assume a: "readVarint (p\<lparr>pos := g\<rparr>) = Inr (n, p1)
      \<and> geomIter (n + pos p1) k (geomInit p1 [] []) = Inr s \<and> pos (rd s) < n + pos p1
      \<and> readCommand s = Inr s1 \<and> cmd s1 \<noteq> 1 \<and> cmd s1 \<noteq> 2 \<and> cmd s1 \<noteq> 7"
  then show g: "readRawGeometry p (Some g) [] [] = Some (Inl InvalidGeometryCommand)"
    using readRawGeometry_invalid by blast
  assume "ftype raw \<noteq> 0 \<and> geometry raw = Some g"
  with g show "createFeature fmt cw p raw = Some (Inl InvalidGeometryCommand)"
    using createFeature_error [of p raw InvalidGeometryCommand fmt cw] by simp
next
  assume "i < length (features l) \<and> readRawFeature q l i = Some (Inr (raw, p))
      \<and> createFeature fmt cw p raw = Some (Inl err)"
  then show "featuresLoop fmt cw l i q fs = Some (Inl err)"
    using featuresLoop_error by blast
next
  assume "selected fmt nm \<and> featuresLoop fmt cw l 0 q fs = Some (Inl err)"
  then show "layersLoop cw ((nm, l) # rest) q fs fmt = Some (Inl err)"
    using layersLoop_error by blast
next
  fix fs' fmt'
  assume a: "readFields layersPBFReader [] None \<lparr>buf = src, pos = 0\<rparr> = Some (Inr (pbfLayers, p0))
      \<and> (nm, l) \<in> set pbfLayers \<and> selected fmt nm \<and> j < length (features l)
      \<and> readRawFeature \<lparr>buf = src, pos = 0\<rparr> l j = Some (Inr (raw', q'))
      \<and> createFeature fmt cw q' raw' = Some (Inl err)"
  show "readFeatures fmt cw src \<noteq> Some (Inr (fs', fmt'))"
  proof
    assume "readFeatures fmt cw src = Some (Inr (fs', fmt'))"
    from readFeatures_needs_every_feature [OF this, of pbfLayers p0 nm l j] a
    show False by auto
  qed
qed

lemma tile3_layers:
  "readFields layersPBFReader [] None \<lparr>buf = tile3, pos = 0\<rparr> =
     Some (Inr ([([97], layerA)], \<lparr>buf = tile3, pos = 21\<rparr>))"
  by (simp add: tile_eval pbf_eval tile3_def layerA_def)

lemma tile3_raw0:
  "readRawFeature \<lparr>buf = tile3, pos = 0\<rparr> layerA 0 =
     Some (Inr (\<lparr>layer = layerA, ftype = 1, properties = [], fid = None, geometry = Some 10\<rparr>,
                \<lparr>buf = tile3, pos = 14\<rparr>))"
  by (simp add: tile_eval pbf_eval tile3_def layerA_def)

lemma tile3_raw1:
  "readRawFeature \<lparr>buf = tile3, pos = 0\<rparr> layerA 1 =
     Some (Inr (\<lparr>layer = layerA, ftype = 1, properties = [], fid = None, geometry = Some 19\<rparr>,
                \<lparr>buf = tile3, pos = 21\<rparr>))"
  by (simp add: tile_eval pbf_eval tile3_def layerA_def)

lemma tile3_feature0:
  "createFeature fmtR cw \<lparr>buf = tile3, pos = 14\<rparr>
     \<lparr>layer = layerA, ftype = 1, properties = [], fid = None, geometry = Some 10\<rparr> =
     Some (Inr (Some pointA, \<lparr>buf = tile3, pos = 14\<rparr>))"
  by (simp add: tile_eval geom_eval pbf_eval tile3_def layerA_def fmtR_def pointA_def)

lemma tile3_result: "readFeatures fmtR cw tile3 = Some (Inl InvalidGeometryCommand)"
  by (simp add: tile_eval geom_eval pbf_eval tile3_def fmtR_def)

theorem invalid_command_aborts_witness:
  "readVarint (\<lparr>buf = tile3, pos = 21\<rparr>\<lparr>pos := 19\<rparr>) = Inr (1, \<lparr>buf = tile3, pos = 20\<rparr>)
   \<and> geomIter (1 + 20) 0 (geomInit \<lparr>buf = tile3, pos = 20\<rparr> [] []) = Inr (geomInit \<lparr>buf = tile3, pos = 20\<rparr> [] [])
   \<and> readCommand (geomInit \<lparr>buf = tile3, pos = 20\<rparr> [] []) =
        Inr ((geomInit \<lparr>buf = tile3, pos = 20\<rparr> [] [])\<lparr>rd := \<lparr>buf = tile3, pos = 21\<rparr>, cmd := 3, len := 1\<rparr>)
   \<and> readRawGeometry \<lparr>buf = tile3, pos = 21\<rparr> (Some 19) [] [] = Some (Inl InvalidGeometryCommand)
   \<and> ftype raw3 \<noteq> 0 \<and> geometry raw3 = Some 19
   \<and> createFeature fmtR linearRingIsClockwise \<lparr>buf = tile3, pos = 21\<rparr> raw3 = Some (Inl InvalidGeometryCommand)
   \<and> readRawFeature \<lparr>buf = tile3, pos = 0\<rparr> layerA 1 = Some (Inr (raw3, \<lparr>buf = tile3, pos = 21\<rparr>))
   \<and> featuresLoop fmtR linearRingIsClockwise layerA 1 \<lparr>buf = tile3, pos = 0\<rparr> [Some pointA] = Some (Inl InvalidGeometryCommand)
   \<and> selected fmtR [97]
   \<and> layersLoop linearRingIsClockwise [([97], layerA)] \<lparr>buf = tile3, pos = 0\<rparr> [] fmtR = Some (Inl InvalidGeometryCommand)
   \<and> readFields layersPBFReader [] None \<lparr>buf = tile3, pos = 0\<rparr> = Some (Inr ([([97], layerA)], \<lparr>buf = tile3, pos = 21\<rparr>))
   \<and> (\<forall>fs' fmt'. readFeatures fmtR linearRingIsClockwise tile3 \<noteq> Some (Inr (fs', fmt')))"
proof -
  let ?p = "\<lparr>buf = tile3, pos = 21\<rparr>" and ?p1 = "\<lparr>buf = tile3, pos = 20\<rparr>"
  let ?q = "\<lparr>buf = tile3, pos = 0\<rparr>"
  let ?s1 = "(geomInit ?p1 [] [])\<lparr>rd := ?p, cmd := 3, len := 1\<rparr>"
  have h1: "readVarint (?p\<lparr>pos := 19\<rparr>) = Inr (1, ?p1)"
    by (simp add: pbf_eval tile3_def)
  have h2: "geomIter (1 + 20) 0 (geomInit ?p1 [] []) = Inr (geomInit ?p1 [] [])"
    by simp
  have h3: "readCommand (geomInit ?p1 [] []) = Inr ?s1"
    by (simp add: readCommand_def geomInit_def pbf_eval tile3_def)
  have h4: "pos (rd (geomInit ?p1 [] [])) < 1 + pos ?p1" "cmd ?s1 \<noteq> 1" "cmd ?s1 \<noteq> 2" "cmd ?s1 \<noteq> 7"
    by (simp_all add: geomInit_def)
  have h5: "ftype raw3 \<noteq> 0" "geometry raw3 = Some 19"
    by (simp_all add: raw3_def)
  have h6: "readRawFeature ?q layerA 1 = Some (Inr (raw3, ?p))"
    using tile3_raw1 by (simp add: raw3_def)
  have h7: "1 < length (features layerA)" "selected fmtR [97]" "([97], layerA) \<in> set [([97], layerA)]"
    by (simp_all add: layerA_def selected_def fmtR_def)
  have h8: "featuresLoop fmtR linearRingIsClockwise layerA 0 ?q [] = Some (Inl InvalidGeometryCommand)"
    by (simp add: tile_eval geom_eval pbf_eval tile3_def fmtR_def layerA_def)
  note T = invalid_command_aborts [where p = ?p and g = 19 and n = 1 and ?p1.0 = ?p1 and k = 0
      and s = "geomInit ?p1 [] []" and ?s1.0 = ?s1 and raw = raw3 and fmt = fmtR
      and cw = linearRingIsClockwise and l = layerA and q = ?q and err = InvalidGeometryCommand
      and nm = "[97]" and src = tile3 and pbfLayers = "[([97], layerA)]" and ?p0.0 = ?p
      and j = 1 and raw' = raw3 and q' = ?p]
  from T [where i = 1 and fs = "[Some pointA]" and rest = "[]"] h1 h2 h3 h4 h5
  have c1: "readRawGeometry ?p (Some 19) [] [] = Some (Inl InvalidGeometryCommand)"
    and c2: "createFeature fmtR linearRingIsClockwise ?p raw3 = Some (Inl InvalidGeometryCommand)"
    by simp_all
  from T [where i = 1 and fs = "[Some pointA]" and rest = "[]"] h6 h7 c2
  have c3: "featuresLoop fmtR linearRingIsClockwise layerA 1 ?q [Some pointA] = Some (Inl InvalidGeometryCommand)"
    by simp
  from T [where i = 1 and fs = "[]" and rest = "[]"] h7 h8
  have c4: "layersLoop linearRingIsClockwise [([97], layerA)] ?q [] fmtR = Some (Inl InvalidGeometryCommand)"
    by simp
  from T [where i = 1 and fs = "[]" and rest = "[]"] tile3_layers h7 h6 c2
  have c5: "\<forall>fs' fmt'. readFeatures fmtR linearRingIsClockwise tile3 \<noteq> Some (Inr (fs', fmt'))"
    by simp
  from h1 h2 h3 h5 h6 h7 c1 c2 c3 c4 c5 tile3_layers show ?thesis
    by simp
qed

text \<open>
  The claim as stated has the failure abort one feature only. On \<open>tile3\<close> the first feature
  decodes to the point (2, 3) when read on its own, the second holds the command 3, and
  the call fails as a whole: the first feature is not returned.
\<close>

theorem one_bad_feature_loses_the_tile_counterexample:
  "readRawFeature \<lparr>buf = tile3, pos = 0\<rparr> layerA 0 =
     Some (Inr (\<lparr>layer = layerA, ftype = 1, properties = [], fid = None, geometry = Some 10\<rparr>,
                \<lparr>buf = tile3, pos = 14\<rparr>))
   \<and> createFeature fmtR linearRingIsClockwise \<lparr>buf = tile3, pos = 14\<rparr>
        \<lparr>layer = layerA, ftype = 1, properties = [], fid = None, geometry = Some 10\<rparr> =
        Some (Inr (Some pointA, \<lparr>buf = tile3, pos = 14\<rparr>))
   \<and> readFeatures fmtR linearRingIsClockwise tile3 = Some (Inl InvalidGeometryCommand)"
  using tile3_raw0 tile3_feature0 [of linearRingIsClockwise] tile3_result [of linearRingIsClockwise]
  by simp

section \<open>C10: a feature of raw type 0 is pushed as null\<close>

lemma createFeature_null: "ftype raw = 0 \<Longrightarrow> createFeature fmt cw p raw = Some (Inr (None, p))"
  by (simp add: createFeature_def)

lemma featuresLoop_null:
  assumes "featuresLoop fmt cw l i p fs = Some (Inr (fs', p'))"
    and "i \<le> j" "j < length (features l)"
    and "readRawFeature \<lparr>buf = buf p, pos = 0\<rparr> l j = Some (Inr (raw, p1))" "ftype raw = 0"
  shows "fs' ! (length fs + (j - i)) = None"
proof -
  from featuresLoop_nth [OF assms(1-3) refl] assms(4)
  obtain p2 where "createFeature fmt cw p1 raw = Some (Inr (fs' ! (length fs + (j - i)), p2))"
    by auto
  with createFeature_null [OF assms(5), of fmt cw p1] show ?thesis by simp
qed

text \<open>
  C10. For a raw feature of type 0 \<^verbatim>\<open>createFeature_\<close> returns null and reads nothing. The loop
  over the features of a layer appends one entry per feature record, null included: when it
  returns, the list has grown by the number of records left, and the entry of a record of
  type 0 is null. When \<^verbatim>\<open>readFeatures\<close> returns, the length of the array it returns is the
  number of feature records of the selected layers.
\<close>

theorem null_features_are_pushed:
  "(ftype raw = 0 \<longrightarrow> createFeature fmt cw p raw = Some (Inr (None, p)))
   \<and> (featuresLoop fmt cw l i q fs = Some (Inr (fs', q'))
        \<longrightarrow> length fs' = length fs + (length (features l) - i)
          \<and> (i \<le> j \<and> j < length (features l)
               \<and> readRawFeature \<lparr>buf = buf q, pos = 0\<rparr> l j = Some (Inr (raw, p)) \<and> ftype raw = 0
              \<longrightarrow> fs' ! (length fs + (j - i)) = None))
   \<and> (readFeatures fmt cw src = Some (Inr (fs1, fmt'))
        \<longrightarrow> (\<exists>pbfLayers p0.
               readFields layersPBFReader [] None \<lparr>buf = src, pos = 0\<rparr> = Some (Inr (pbfLayers, p0))
             \<and> length fs1 =
                 sum_list (map (\<lambda>(nm, l). length (features l))
                             (filter (\<lambda>(nm, l). selected fmt nm) (forIn pbfLayers)))))"
proof (intro conjI impI)
  assume "ftype raw = 0"
  then show "createFeature fmt cw p raw = Some (Inr (None, p))"
    by (rule createFeature_null)
next
  assume a: "featuresLoop fmt cw l i q fs = Some (Inr (fs', q'))"
  then show "length fs' = length fs + (length (features l) - i)"
    using featuresLoop_result by blast
  assume "i \<le> j \<and> j < length (features l)
    \<and> readRawFeature \<lparr>buf = buf q, pos = 0\<rparr> l j = Some (Inr (raw, p)) \<and> ftype raw = 0"
  with a show "fs' ! (length fs + (j - i)) = None"
    using featuresLoop_null by blast
next
  assume "readFeatures fmt cw src = Some (Inr (fs1, fmt'))"
  then obtain pbfLayers p0 where
    a: "readFields layersPBFReader [] None \<lparr>buf = src, pos = 0\<rparr> = Some (Inr (pbfLayers, p0))"
      "layersLoop cw (forIn pbfLayers) p0 [] fmt = Some (Inr (fs1, fmt'))"
    by (rule readFeatures_Inr)
  from layersLoop_length [OF a(2)] a(1)
  show "\<exists>pbfLayers p0.
          readFields layersPBFReader [] None \<lparr>buf = src, pos = 0\<rparr> = Some (Inr (pbfLayers, p0))
        \<and> length fs1 =
            sum_list (map (\<lambda>(nm, l). length (features l))
                        (filter (\<lambda>(nm, l). selected fmt nm) (forIn pbfLayers)))"
    by auto
qed

lemma tile2_layers:
  "readFields layersPBFReader [] None \<lparr>buf = tile2, pos = 0\<rparr> =
     Some (Inr ([([97], layerA)], \<lparr>buf = tile2, pos = 18\<rparr>))"
  by (simp add: tile_eval pbf_eval tile2_def layerA_def)

lemma tile2_raw1:
  "readRawFeature \<lparr>buf = tile2, pos = 0\<rparr> layerA 1 = Some (Inr (raw2, \<lparr>buf = tile2, pos = 18\<rparr>))"
  by (simp add: tile_eval pbf_eval tile2_def layerA_def raw2_def)

lemma tile2_features:
  "featuresLoop fmtR cw layerA 0 \<lparr>buf = tile2, pos = 0\<rparr> [] =
     Some (Inr ([Some pointA, None], \<lparr>buf = tile2, pos = 18\<rparr>))"
  by (simp add: tile_eval geom_eval pbf_eval tile2_def fmtR_def layerA_def pointA_def)

lemma tile2_result:
  "readFeatures fmtR cw tile2 =
     Some (Inr ([Some pointA, None], fmtR\<lparr>lastExtent := Some [Some 0, Some 0, None, None]\<rparr>))"
  by (simp add: tile_eval geom_eval pbf_eval tile2_def fmtR_def pointA_def)

theorem null_features_are_pushed_witness:
  "ftype raw2 = 0
   \<and> createFeature fmtR linearRingIsClockwise \<lparr>buf = tile2, pos = 18\<rparr> raw2 =
        Some (Inr (None, \<lparr>buf = tile2, pos = 18\<rparr>))
   \<and> featuresLoop fmtR linearRingIsClockwise layerA 0 \<lparr>buf = tile2, pos = 0\<rparr> [] =
        Some (Inr ([Some pointA, None], \<lparr>buf = tile2, pos = 18\<rparr>))
   \<and> length [Some pointA, None] = length ([] :: feature option list) + (length (features layerA) - 0)
   \<and> readRawFeature \<lparr>buf = tile2, pos = 0\<rparr> layerA 1 = Some (Inr (raw2, \<lparr>buf = tile2, pos = 18\<rparr>))
   \<and> [Some pointA, None] ! (length ([] :: feature option list) + (1 - 0)) = None
   \<and> readFeatures fmtR linearRingIsClockwise tile2 =
        Some (Inr ([Some pointA, None], fmtR\<lparr>lastExtent := Some [Some 0, Some 0, None, None]\<rparr>))
   \<and> (\<exists>pbfLayers p0.
         readFields layersPBFReader [] None \<lparr>buf = tile2, pos = 0\<rparr> = Some (Inr (pbfLayers, p0))
       \<and> length [Some pointA, None] =
           sum_list (map (\<lambda>(nm, l). length (features l))
                       (filter (\<lambda>(nm, l). selected fmtR nm) (forIn pbfLayers))))"
proof -
  let ?q = "\<lparr>buf = tile2, pos = 0\<rparr>" and ?p = "\<lparr>buf = tile2, pos = 18\<rparr>"
  note T = null_features_are_pushed [where raw = raw2 and fmt = fmtR and cw = linearRingIsClockwise
      and p = ?p and l = layerA and i = 0 and q = ?q and fs = "[]" and fs' = "[Some pointA, None]"
      and q' = ?p and j = 1 and src = tile2 and ?fs1.0 = "[Some pointA, None]"
      and fmt' = "fmtR\<lparr>lastExtent := Some [Some 0, Some 0, None, None]\<rparr>"]
  have h0: "ftype raw2 = 0" "(0::nat) \<le> 1" "1 < length (features layerA)"
    by (simp_all add: raw2_def layerA_def)
  have h1: "readRawFeature \<lparr>buf = buf ?q, pos = 0\<rparr> layerA 1 = Some (Inr (raw2, ?p))"
    using tile2_raw1 by simp
  from T h0 have c1: "createFeature fmtR linearRingIsClockwise ?p raw2 = Some (Inr (None, ?p))"
    by blast
  from T tile2_features [of linearRingIsClockwise]
  have c2: "length [Some pointA, None] = length ([] :: feature option list) + (length (features layerA) - 0)"
    by blast
  from T tile2_features [of linearRingIsClockwise] h0 h1
  have c3: "[Some pointA, None] ! (length ([] :: feature option list) + (1 - 0)) = None"
    by blast
  from T tile2_result [of linearRingIsClockwise]
  have c4: "\<exists>pbfLayers p0.
         readFields layersPBFReader [] None \<lparr>buf = tile2, pos = 0\<rparr> = Some (Inr (pbfLayers, p0))
       \<and> length [Some pointA, None] =
           sum_list (map (\<lambda>(nm, l). length (features l))
                       (filter (\<lambda>(nm, l). selected fmtR nm) (forIn pbfLayers)))"
    by blast
  from h0(1) c1 c2 c3 c4 tile2_features [of linearRingIsClockwise] tile2_raw1
    tile2_result [of linearRingIsClockwise]
  show ?thesis by blast
qed

section \<open>C9: a value record with an unknown tag\<close>

lemma readValue_unknown:
  "tag \<noteq> 1 \<Longrightarrow> tag \<noteq> 2 \<Longrightarrow> tag \<noteq> 3 \<Longrightarrow> tag \<noteq> 4 \<Longrightarrow> tag \<noteq> 5 \<Longrightarrow> tag \<noteq> 6 \<Longrightarrow> tag \<noteq> 7
     \<Longrightarrow> readValue tag p = Inr (Null, p)"
  by (simp add: readValue_def)

text \<open>
  C9. The value loop (lines 338 to 347) gives null for a tag it does not know and reads
  nothing for it, so the payload of the unknown field is taken for further tags of the
  record. On \<open>tile4\<close> the payload byte 10 is read as the tag of a string, whose length is
  then the tag byte of the name field: the value is that string, not null, the reader
  ends up at the last byte of the layer, and \<^verbatim>\<open>readFeatures\<close> fails.
\<close>

theorem unknown_value_tag_with_payload:
  "layerPBFReader 4 emptyLayer \<lparr>buf = tile4, pos = 3\<rparr> =
     Some (Inr (emptyLayer\<lparr>vals := [StringV [1, 97, 18, 7, 24, 1, 34, 3, 9, 4]]\<rparr>,
                \<lparr>buf = tile4, pos = 17\<rparr>))
   \<and> readFeatures fmtR linearRingIsClockwise tile4 = Some (Inl PbfError)"
proof -
  have "layerPBFReader 4 emptyLayer \<lparr>buf = tile4, pos = 3\<rparr> =
     Some (Inr (emptyLayer\<lparr>vals := [StringV [1, 97, 18, 7, 24, 1, 34, 3, 9, 4]]\<rparr>,
                \<lparr>buf = tile4, pos = 17\<rparr>))"
    by (simp add: tile_eval pbf_eval tile4_def emptyLayer_def)
  moreover have "readFeatures fmtR linearRingIsClockwise tile4 = Some (Inl PbfError)"
    by (simp add: tile_eval geom_eval pbf_eval tile4_def fmtR_def)
  ultimately show ?thesis by simp
qed

section \<open>C1: the rings of a polygon\<close>

lemma ringsLoop_length:
  "offset = ringStart es i \<Longrightarrow>
   length (ringsLoop cw fc es i endss offset prev) =
     length endss + length (filter (\<lambda>k. \<not> cw fc (ringStart es k) (es ! k) 2) [i..<length es])"
proof (induction cw fc es i endss offset prev rule: ringsLoop.induct)
  case (1 cw fc es i endss offset prev)
  show ?case
  proof (cases "i < length es")
    case False
    then show ?thesis by (simp add: ringsLoop.simps)
  next
    case True
    have nxt: "es ! i = ringStart es (i + 1)"
      by (simp add: ringStart_def)
    have upt: "[i..<length es] = i # [i + 1..<length es]"
      using True by (simp add: upt_conv_Cons)
    show ?thesis
    proof (cases "cw fc offset (es ! i) 2")
      case cwT: True
      have "ringsLoop cw fc es i endss offset prev = ringsLoop cw fc es (i + 1) endss (es ! i) prev"
        using True cwT by (subst ringsLoop.simps) (simp add: Let_def)
      with "1.IH"(2) [OF True refl _ nxt] cwT "1.prems" upt show ?thesis
        by simp
    next
      case cwF: False
      have "ringsLoop cw fc es i endss offset prev =
          ringsLoop cw fc es (i + 1) (endss @ [slice es prev i]) (es ! i) i"
        using True cwF by (subst ringsLoop.simps) (simp add: Let_def)
      with "1.IH"(1) [OF True refl _ nxt] cwF "1.prems" upt show ?thesis
        by simp
    qed
  qed
qed

lemma buildGeometry_polygon:
  "buildGeometry cw (Some POLYGON) fc es =
     (if 1 < length (exteriorRings cw fc es)
      then Some (MultiPolygon fc (ringsLoop cw fc es 0 [] 0 0))
      else Some (Polygon fc es))
   \<and> length (ringsLoop cw fc es 0 [] 0 0) = length (exteriorRings cw fc es)"
  using ringsLoop_length [of 0 es 0 cw fc "[]" 0]
  by (simp add: buildGeometry_def exteriorRings_def ringStart_def Let_def)

lemma createFeature_polygon:
  assumes "createFeature fmt cw p raw = Some (Inr (f, p'))" "ftype raw = 3"
  shows "\<exists>s vs. readRawGeometry p (geometry raw) [] [] = Some (Inr s)
           \<and> f = Some (if featureClass fmt = RenderFeature
                        then RenderFeatureObj (Some POLYGON) (flatCoordinates s) (ends s) vs (fid raw)
                        else FeatureObj (case geometryName fmt of None \<Rightarrow> None
                                         | Some n \<Rightarrow> if n = [] then None else Some n)
                               (buildGeometry cw (Some POLYGON) (flatCoordinates s) (ends s))
                               (fid raw) vs)"
  using assms
  by (auto simp: createFeature_def getGeometryType_def Let_def split: option.splits sum.splits if_splits)

text \<open>
  C1, as the code has it. A feature of raw type 3 is always classified POLYGON. For the
  render feature class, the default, the feature keeps that type with the coordinates and
  the ends as decoded: the rings are not grouped. For another feature class a pass over
  the rings counts those on which \<^verbatim>\<open>linearRingIsClockwise\<close> is false, the exterior rings of
  tile coordinates: with more than one such ring the geometry is a multi-polygon with one
  part per such ring, otherwise it is a single polygon over all the ends. So two
  consecutive exterior rings give a multi-polygon of two parts, and an exterior ring
  followed by a ring of the other winding gives one polygon with two ends. (Which ends go
  into which part is not stated here.)
\<close>

theorem polygon_rings_by_winding:
  "(ftype raw = 3 \<and> createFeature fmt cw p raw = Some (Inr (f, p'))
      \<longrightarrow> (\<exists>s vs. readRawGeometry p (geometry raw) [] [] = Some (Inr s)
            \<and> (featureClass fmt = RenderFeature
                 \<longrightarrow> f = Some (RenderFeatureObj (Some POLYGON) (flatCoordinates s) (ends s) vs (fid raw)))
            \<and> (featureClass fmt \<noteq> RenderFeature
                 \<longrightarrow> (\<exists>gn g. f = Some (FeatureObj gn (Some g) (fid raw) vs)
                       \<and> (if 1 < length (exteriorRings cw (flatCoordinates s) (ends s))
                          then \<exists>endss. g = MultiPolygon (flatCoordinates s) endss
                                 \<and> length endss = length (exteriorRings cw (flatCoordinates s) (ends s))
                          else g = Polygon (flatCoordinates s) (ends s))))))
   \<and> (\<not> cw fc 0 e0 2 \<and> \<not> cw fc e0 e1 2
      \<longrightarrow> (\<exists>endss. buildGeometry cw (Some POLYGON) fc [e0, e1] = Some (MultiPolygon fc endss)
             \<and> length endss = 2))
   \<and> (\<not> cw fc 0 e0 2 \<and> cw fc e0 e1 2
      \<longrightarrow> buildGeometry cw (Some POLYGON) fc [e0, e1] = Some (Polygon fc [e0, e1])
        \<and> length [e0, e1] = 2)"
proof (intro conjI impI)
  assume a: "ftype raw = 3 \<and> createFeature fmt cw p raw = Some (Inr (f, p'))"
  then obtain s vs where
    s: "readRawGeometry p (geometry raw) [] [] = Some (Inr s)"
      "f = Some (if featureClass fmt = RenderFeature
                 then RenderFeatureObj (Some POLYGON) (flatCoordinates s) (ends s) vs (fid raw)
                 else FeatureObj (case geometryName fmt of None \<Rightarrow> None
                                  | Some n \<Rightarrow> if n = [] then None else Some n)
                        (buildGeometry cw (Some POLYGON) (flatCoordinates s) (ends s))
                        (fid raw) vs)"
    using createFeature_polygon by blast
  show "\<exists>s vs. readRawGeometry p (geometry raw) [] [] = Some (Inr s)
            \<and> (featureClass fmt = RenderFeature
                 \<longrightarrow> f = Some (RenderFeatureObj (Some POLYGON) (flatCoordinates s) (ends s) vs (fid raw)))
            \<and> (featureClass fmt \<noteq> RenderFeature
                 \<longrightarrow> (\<exists>gn g. f = Some (FeatureObj gn (Some g) (fid raw) vs)
                       \<and> (if 1 < length (exteriorRings cw (flatCoordinates s) (ends s))
                          then \<exists>endss. g = MultiPolygon (flatCoordinates s) endss
                                 \<and> length endss = length (exteriorRings cw (flatCoordinates s) (ends s))
                          else g = Polygon (flatCoordinates s) (ends s))))"
    using s buildGeometry_polygon [of cw "flatCoordinates s" "ends s"]
    by (intro exI [of _ s] exI [of _ vs]) auto
next
  assume "\<not> cw fc 0 e0 2 \<and> \<not> cw fc e0 e1 2"
  then have "length (exteriorRings cw fc [e0, e1]) = 2"
    by (simp add: exteriorRings_def ringStart_def upt_conv_Cons)
  with buildGeometry_polygon [of cw fc "[e0, e1]"]
  show "\<exists>endss. buildGeometry cw (Some POLYGON) fc [e0, e1] = Some (MultiPolygon fc endss)
             \<and> length endss = 2"
    by simp
next
  assume "\<not> cw fc 0 e0 2 \<and> cw fc e0 e1 2"
  then have "length (exteriorRings cw fc [e0, e1]) = 1"
    by (simp add: exteriorRings_def ringStart_def upt_conv_Cons)
  with buildGeometry_polygon [of cw fc "[e0, e1]"]
  show "buildGeometry cw (Some POLYGON) fc [e0, e1] = Some (Polygon fc [e0, e1])"
    by simp
next
  show "length [e0, e1] = 2" by simp
qed


lemma exC_windings:
  "\<not> linearRingIsClockwise flatC 0 10 2 \<and> \<not> linearRingIsClockwise flatC 10 20 2"
  by (simp add: linearRingIsClockwise_def edgeSum.simps flatC_def)

lemma exD_windings:
  "\<not> linearRingIsClockwise flatD 0 10 2 \<and> linearRingIsClockwise flatD 10 20 2"
  by (simp add: linearRingIsClockwise_def edgeSum.simps flatD_def)

lemma exC_render:
  "createFeature fmtR linearRingIsClockwise \<lparr>buf = exC, pos = 0\<rparr> rawP =
     Some (Inr (Some (RenderFeatureObj (Some POLYGON) flatC [10, 20]
                        [([108, 97, 121, 101, 114], Undefined)] None),
                \<lparr>buf = exC, pos = 23\<rparr>))"
  by (simp add: tile_eval geom_eval pbf_eval exC_def fmtR_def rawP_def emptyLayer_def flatC_def)

lemma exC_other:
  "createFeature fmtF linearRingIsClockwise \<lparr>buf = exC, pos = 0\<rparr> rawP =
     Some (Inr (Some (FeatureObj None (Some (MultiPolygon flatC [[], [10]])) None
                        [([108, 97, 121, 101, 114], Undefined)]),
                \<lparr>buf = exC, pos = 23\<rparr>))"
  by (simp add: tile_eval geom_eval pbf_eval exC_def fmtF_def rawP_def emptyLayer_def flatC_def)

lemma exD_other:
  "createFeature fmtF linearRingIsClockwise \<lparr>buf = exD, pos = 0\<rparr> rawP =
     Some (Inr (Some (FeatureObj None (Some (Polygon flatD [10, 20])) None
                        [([108, 97, 121, 101, 114], Undefined)]),
                \<lparr>buf = exD, pos = 23\<rparr>))"
  by (simp add: tile_eval geom_eval pbf_eval exD_def fmtF_def rawP_def emptyLayer_def flatD_def)

theorem polygon_rings_by_winding_witness:
  "ftype rawP = 3
   \<and> createFeature fmtR linearRingIsClockwise \<lparr>buf = exC, pos = 0\<rparr> rawP =
       Some (Inr (Some (RenderFeatureObj (Some POLYGON) flatC [10, 20]
                          [([108, 97, 121, 101, 114], Undefined)] None),
                  \<lparr>buf = exC, pos = 23\<rparr>))
   \<and> featureClass fmtR = RenderFeature
   \<and> (\<exists>s vs. readRawGeometry \<lparr>buf = exC, pos = 0\<rparr> (geometry rawP) [] [] = Some (Inr s)
          \<and> RenderFeatureObj (Some POLYGON) flatC [10, 20] [([108, 97, 121, 101, 114], Undefined)] None =
              RenderFeatureObj (Some POLYGON) (flatCoordinates s) (ends s) vs (fid rawP))
   \<and> \<not> linearRingIsClockwise flatC 0 10 2 \<and> \<not> linearRingIsClockwise flatC 10 20 2
   \<and> (\<exists>endss. buildGeometry linearRingIsClockwise (Some POLYGON) flatC [10, 20] =
                  Some (MultiPolygon flatC endss) \<and> length endss = 2)
   \<and> \<not> linearRingIsClockwise flatD 0 10 2 \<and> linearRingIsClockwise flatD 10 20 2
   \<and> buildGeometry linearRingIsClockwise (Some POLYGON) flatD [10, 20] = Some (Polygon flatD [10, 20])"
proof -
  have t: "ftype rawP = 3" "featureClass fmtR = RenderFeature"
    by (simp_all add: rawP_def fmtR_def)
  note T = polygon_rings_by_winding [where cw = linearRingIsClockwise and raw = rawP and fmt = fmtR
      and p = "\<lparr>buf = exC, pos = 0\<rparr>" and p' = "\<lparr>buf = exC, pos = 23\<rparr>" and ?e0.0 = 10 and ?e1.0 = 20
      and f = "Some (RenderFeatureObj (Some POLYGON) flatC [10, 20]
                          [([108, 97, 121, 101, 114], Undefined)] None)"]
  from T [where fc = flatC] t exC_render
  have c1: "\<exists>s vs. readRawGeometry \<lparr>buf = exC, pos = 0\<rparr> (geometry rawP) [] [] = Some (Inr s)
          \<and> RenderFeatureObj (Some POLYGON) flatC [10, 20] [([108, 97, 121, 101, 114], Undefined)] None =
              RenderFeatureObj (Some POLYGON) (flatCoordinates s) (ends s) vs (fid rawP)"
    by auto
  from T [where fc = flatC] exC_windings
  have c2: "\<exists>endss. buildGeometry linearRingIsClockwise (Some POLYGON) flatC [10, 20] =
                  Some (MultiPolygon flatC endss) \<and> length endss = 2"
    by blast
  from T [where fc = flatD] exD_windings
  have c3: "buildGeometry linearRingIsClockwise (Some POLYGON) flatD [10, 20] = Some (Polygon flatD [10, 20])"
    by blast
  from t exC_render c1 c2 c3 exC_windings exD_windings show ?thesis
    by blast
qed

text \<open>
  The claim as stated has two consecutive exterior rings decode to a multi-polygon whose
  parts are formed ring by ring. On \<open>exC\<close> the render feature is a POLYGON with the two ends
  10 and 20; for another feature class the geometry is a multi-polygon whose parts are the
  empty list and the list holding the first ring.
\<close>

theorem two_exterior_rings_counterexample:
  "createFeature fmtR linearRingIsClockwise \<lparr>buf = exC, pos = 0\<rparr> rawP =
     Some (Inr (Some (RenderFeatureObj (Some POLYGON) flatC [10, 20]
                        [([108, 97, 121, 101, 114], Undefined)] None),
                \<lparr>buf = exC, pos = 23\<rparr>))
   \<and> createFeature fmtF linearRingIsClockwise \<lparr>buf = exC, pos = 0\<rparr> rawP =
     Some (Inr (Some (FeatureObj None (Some (MultiPolygon flatC [[], [10]])) None
                        [([108, 97, 121, 101, 114], Undefined)]),
                \<lparr>buf = exC, pos = 23\<rparr>))"
  using exC_render exC_other by simp

section \<open>C4: ensureLoaded registers at most one listener\<close>

lemma listenersOf_addListener:
  "listenersOf e (addListener e cb r) = listenersOf e r @ [cb]"
  by (simp add: listenersOf_def addListener_def update_conv')

text \<open>
  C4. On an IDLE resource \<open>ensureLoaded\<close> returns false, appends exactly one \<^verbatim>\<open>change\<close>
  listener and leaves the resource LOADING; called again on that resource it returns false
  and changes nothing, so one listener is pending. On a LOADING resource it returns false
  and on a LOADED one true, in both cases leaving the resource, its listeners included, as
  it was.
\<close>

theorem ensureLoaded_listeners:
  "(state r = IDLE \<longrightarrow>
      fst (ensureLoaded cb r) = False
    \<and> state (snd (ensureLoaded cb r)) = LOADING
    \<and> listenersOf ''change'' (snd (ensureLoaded cb r)) = listenersOf ''change'' r @ [cb]
    \<and> ensureLoaded cb (snd (ensureLoaded cb r)) = (False, snd (ensureLoaded cb r)))
   \<and> (state r = LOADING \<longrightarrow> ensureLoaded cb r = (False, r))
   \<and> (state r = LOADED \<longrightarrow> ensureLoaded cb r = (True, r))"
proof -
  have l: "listenersOf e (r'\<lparr>state := s\<rparr>) = listenersOf e r'" for e s and r' :: "'a tileResource"
    by (simp add: listenersOf_def)
  show ?thesis
    by (simp add: ensureLoaded_def listenersOf_addListener l)
qed

theorem ensureLoaded_listeners_witness:
  "state image0 = IDLE
   \<and> fst (ensureLoaded 7 image0) = False
   \<and> state (snd (ensureLoaded 7 image0)) = LOADING
   \<and> length (listenersOf ''change'' (snd (ensureLoaded 7 image0))) = 1
   \<and> ensureLoaded 7 (snd (ensureLoaded 7 image0)) = (False, snd (ensureLoaded 7 image0))
   \<and> state (image0\<lparr>state := LOADED\<rparr>) = LOADED
   \<and> ensureLoaded 7 (image0\<lparr>state := LOADED\<rparr>) = (True, image0\<lparr>state := LOADED\<rparr>)
   \<and> state (image0\<lparr>state := LOADING\<rparr>) = LOADING
   \<and> ensureLoaded 7 (image0\<lparr>state := LOADING\<rparr>) = (False, image0\<lparr>state := LOADING\<rparr>)"
proof -
  have s: "state image0 = IDLE" "listenersOf ''change'' image0 = []"
    by (simp_all add: image0_def listenersOf_def)
  from ensureLoaded_listeners [of image0 7] s
  have a: "fst (ensureLoaded 7 image0) = False" "state (snd (ensureLoaded 7 image0)) = LOADING"
    "listenersOf ''change'' (snd (ensureLoaded 7 image0)) = [7]"
    "ensureLoaded 7 (snd (ensureLoaded 7 image0)) = (False, snd (ensureLoaded 7 image0))"
    by simp_all
  from ensureLoaded_listeners [of "image0\<lparr>state := LOADED\<rparr>" 7]
  have b: "ensureLoaded 7 (image0\<lparr>state := LOADED\<rparr>) = (True, image0\<lparr>state := LOADED\<rparr>)"
    by simp
  from ensureLoaded_listeners [of "image0\<lparr>state := LOADING\<rparr>" 7]
  have c: "ensureLoaded 7 (image0\<lparr>state := LOADING\<rparr>) = (False, image0\<lparr>state := LOADING\<rparr>)"
    by simp
  from s a b c show ?thesis by simp
qed

section \<open>C5: keys round-trip\<close>

declare showNat.simps [simp del]

lemma digit_cases: "d < 10 \<Longrightarrow> d = 0 \<or> d = 1 \<or> d = 2 \<or> d = 3 \<or> d = 4 \<or> d = 5 \<or> d = 6 \<or> d = 7 \<or> d = 8 \<or> d = (9::nat)"
  by arith

lemma digit_props:
  assumes "d < 10"
  shows "isDigit (digit d) \<and> digitVal (digit d) = d \<and> digit d \<noteq> CHR ''/'' \<and> digit d \<noteq> CHR ''-''"
  using digit_cases [OF assms]
  by (elim disjE) (simp_all add: digit_def isDigit_def digitVal_def)

lemma showNat_digits: "list_all isDigit (showNat n) \<and> showNat n \<noteq> []"
proof (induction n rule: showNat.induct)
  case (1 n)
  show ?case
  proof (cases "n < 10")
    case True
    then show ?thesis
      using digit_props [of n] by (subst showNat.simps, subst (2) showNat.simps) simp
  next
    case False
    then show ?thesis
      using "1.IH" digit_props [of "n mod 10"]
      by (subst showNat.simps, subst (2) showNat.simps) simp
  qed
qed

lemma parseNat_snoc: "parseNat (s @ [c]) = 10 * parseNat s + digitVal c"
  by (simp add: parseNat_def)

lemma parseNat_showNat: "parseNat (showNat n) = n"
proof (induction n rule: showNat.induct)
  case (1 n)
  show ?case
  proof (cases "n < 10")
    case True
    then show ?thesis
      using digit_props [of n] by (subst showNat.simps) (simp add: parseNat_def)
  next
    case False
    then have "parseNat (showNat n) = 10 * parseNat (showNat (n div 10)) + digitVal (digit (n mod 10))"
      by (subst showNat.simps) (simp add: parseNat_snoc)
    with False "1.IH" digit_props [of "n mod 10"] show ?thesis
      by simp
  qed
qed

lemma isDigit_not_special: "isDigit c \<Longrightarrow> c \<noteq> CHR ''/'' \<and> c \<noteq> CHR ''-''"
  by (auto simp: isDigit_def)

lemma showNat_hd: "hd (showNat n) \<noteq> CHR ''-''"
  using showNat_digits [of n] isDigit_not_special
  by (cases "showNat n") auto

lemma parseInt_showInt: "parseInt (showInt i) = Some i"
proof (cases "i < 0")
  case True
  then show ?thesis
    using showNat_digits [of "nat (- i)"]
    by (simp add: parseInt_def showInt_def isNumeral_def parseNat_showNat)
next
  case False
  obtain c r where cr: "showNat (nat i) = c # r"
    using showNat_digits [of "nat i"] by (cases "showNat (nat i)") auto
  with showNat_hd [of "nat i"] have "c \<noteq> CHR ''-''" by simp
  with False cr showNat_digits [of "nat i"] parseNat_showNat [of "nat i"] show ?thesis
    by (simp add: parseInt_def showInt_def isNumeral_def)
qed

lemma showInt_no_slash: "CHR ''/'' \<notin> set (showInt i)"
proof -
  have "CHR ''/'' \<notin> set (showNat n)" for n
    using showNat_digits [of n] isDigit_not_special by (auto simp: list_all_iff)
  then show ?thesis
    by (simp add: showInt_def)
qed

lemma splitOn_nonempty: "splitOn c s \<noteq> []"
  by (induction s) (auto split: list.splits)

lemma splitOn_none: "c \<notin> set a \<Longrightarrow> splitOn c a = [a]"
  by (induction a) auto

lemma splitOn_append: "c \<notin> set a \<Longrightarrow> splitOn c (a @ c # rest) = a # splitOn c rest"
  using splitOn_nonempty [of c rest]
  by (induction a) (auto split: list.splits)

lemma splitOn_join:
  "splitOn c s = p # ps \<Longrightarrow> s = p @ concat (map (\<lambda>q. c # q) ps) \<and> c \<notin> set p"
proof (induction s arbitrary: p ps)
  case Nil
  then show ?case by simp
next
  case (Cons x xs)
  show ?case
  proof (cases "x = c")
    case True
    with Cons.prems have "p = []" "ps = splitOn c xs" by simp_all
    moreover obtain q qs where q: "splitOn c xs = q # qs"
      using splitOn_nonempty [of c xs] by (cases "splitOn c xs") auto
    ultimately show ?thesis
      using Cons.IH [OF q] True by simp
  next
    case False
    obtain q qs where q: "splitOn c xs = q # qs"
      using splitOn_nonempty [of c xs] by (cases "splitOn c xs") auto
    with Cons.prems False have "p = x # q" "ps = qs" by simp_all
    with Cons.IH [OF q] False show ?thesis by simp
  qed
qed

lemma fromKey_toKey: "fromKey (toKey z x y) = Inr (z, x, y)"
proof -
  have "splitOn CHR ''/'' (toKey z x y) = [showInt z, showInt x, showInt y]"
    using showInt_no_slash
    by (simp add: toKey_def splitOn_append splitOn_none)
  then show ?thesis
    by (simp add: fromKey_def parseInt_showInt)
qed

lemma fromKey_Inr:
  assumes "fromKey key = Inr (z, x, y)"
  shows "\<exists>a b c. key = a @ ''/'' @ b @ ''/'' @ c
           \<and> parseInt a = Some z \<and> parseInt b = Some x \<and> parseInt c = Some y"
proof -
  from assms obtain a b c where
    s: "splitOn CHR ''/'' key = [a, b, c]"
      "parseInt a = Some z" "parseInt b = Some x" "parseInt c = Some y"
    by (auto simp: fromKey_def split: list.splits option.splits)
  from splitOn_join [OF s(1)] have "key = a @ ''/'' @ b @ ''/'' @ c" by simp
  with s show ?thesis by blast
qed

lemma fromKey_cases: "fromKey key = Inl e \<Longrightarrow> e = MalformedKey"
  by (auto simp: fromKey_def split: list.splits option.splits)

text \<open>
  C5. \<open>fromKey (toKey z x y)\<close> is \<open>(z, x, y)\<close> for all integers, negative ones included;
  \<open>toKey\<close> is injective; and \<open>fromKey\<close> either fails with \<open>MalformedKey\<close> or its input is
  three decimal numerals separated by two slashes, which it returns.
\<close>

theorem key_roundtrip:
  "fromKey (toKey z x y) = Inr (z, x, y)
   \<and> (toKey z x y = toKey z' x' y' \<longrightarrow> z = z' \<and> x = x' \<and> y = y')
   \<and> (fromKey key = Inl MalformedKey
       \<or> (\<exists>a b c u v w. key = a @ ''/'' @ b @ ''/'' @ c
             \<and> parseInt a = Some u \<and> parseInt b = Some v \<and> parseInt c = Some w
             \<and> fromKey key = Inr (u, v, w)))"
proof (intro conjI impI)
  show "fromKey (toKey z x y) = Inr (z, x, y)"
    by (rule fromKey_toKey)
next
  assume "toKey z x y = toKey z' x' y'"
  then have "fromKey (toKey z x y) = fromKey (toKey z' x' y')" by simp
  then have "(z, x, y) = (z', x', y')" by (simp add: fromKey_toKey)
  then show "z = z'" "x = x'" "y = y'" by simp_all
next
  show "fromKey key = Inl MalformedKey
       \<or> (\<exists>a b c u v w. key = a @ ''/'' @ b @ ''/'' @ c
             \<and> parseInt a = Some u \<and> parseInt b = Some v \<and> parseInt c = Some w
             \<and> fromKey key = Inr (u, v, w))"
  proof (cases "fromKey key")
    case (Inl e)
    then show ?thesis using fromKey_cases by blast
  next
    case (Inr t)
    obtain u v w where t: "t = (u, v, w)" by (cases t)
    from fromKey_Inr [OF Inr [unfolded t]] Inr t show ?thesis by blast
  qed
qed

lemma showNat_eval: "showNat 4 = ''4'' \<and> showNat 13 = ''13'' \<and> showNat 7 = ''7''"
  by (simp add: showNat.simps digit_def)

theorem key_roundtrip_witness:
  "toKey 4 (- 13) 7 = ''4/-13/7''
   \<and> fromKey ''4/-13/7'' = Inr (4, - 13, 7)
   \<and> toKey 4 (- 13) 7 = toKey 4 (- 13) 7
   \<and> fromKey ''4/x/7'' = Inl MalformedKey
   \<and> fromKey ''4/7'' = Inl MalformedKey"
proof -
  have k: "toKey 4 (- 13) 7 = ''4/-13/7''"
    using showNat_eval by (simp add: toKey_def showInt_def)
  from key_roundtrip [of 4 "- 13" 7 4 "- 13" 7 "''4/x/7''"] k
  have a: "fromKey ''4/-13/7'' = Inr (4, - 13, 7)" by simp
  have b: "fromKey ''4/x/7'' = Inl MalformedKey" "fromKey ''4/7'' = Inl MalformedKey"
    by (simp_all add: fromKey_def parseInt_def isNumeral_def isDigit_def)
  from k a b show ?thesis by simp
qed

section \<open>C7: pruning\<close>

lemma evictWalk_shape:
  "\<exists>j \<le> length xs.
     evictWalk A lw n xs = filter (\<lambda>e. fst e \<in> A) (take j xs) @ drop j xs
   \<and> (j = length xs \<or> n - length (filter (\<lambda>e. fst e \<notin> A) (take j xs)) \<le> lw)
   \<and> min lw n \<le> n - length (filter (\<lambda>e. fst e \<notin> A) (take j xs))
   \<and> length (filter (\<lambda>e. fst e \<notin> A) (take j xs)) \<le> n - min lw n"
proof (induction xs arbitrary: n)
  case Nil
  then show ?case by simp
next
  case (Cons e es)
  show ?case
  proof (cases "n \<le> lw")
    case True
    then show ?thesis
      by (intro exI [of _ 0]) simp
  next
    case False
    show ?thesis
    proof (cases "fst e \<in> A")
      case True
      from Cons.IH [of n] obtain j where j: "j \<le> length es"
        "evictWalk A lw n es = filter (\<lambda>e. fst e \<in> A) (take j es) @ drop j es"
        "j = length es \<or> n - length (filter (\<lambda>e. fst e \<notin> A) (take j es)) \<le> lw"
        "min lw n \<le> n - length (filter (\<lambda>e. fst e \<notin> A) (take j es))"
        "length (filter (\<lambda>e. fst e \<notin> A) (take j es)) \<le> n - min lw n"
        by blast
      with False True show ?thesis
        by (intro exI [of _ "Suc j"]) auto
    next
      case notA: False
      from Cons.IH [of "n - 1"] obtain j where j: "j \<le> length es"
        "evictWalk A lw (n - 1) es = filter (\<lambda>e. fst e \<in> A) (take j es) @ drop j es"
        "j = length es \<or> n - 1 - length (filter (\<lambda>e. fst e \<notin> A) (take j es)) \<le> lw"
        "min lw (n - 1) \<le> n - 1 - length (filter (\<lambda>e. fst e \<notin> A) (take j es))"
        "length (filter (\<lambda>e. fst e \<notin> A) (take j es)) \<le> n - 1 - min lw (n - 1)"
        by blast
      with False notA show ?thesis
        by (intro exI [of _ "Suc j"]) (auto simp: min_def split: if_splits)
    qed
  qed
qed

lemma evictWalk_none:
  "evictWalk {} lw (length xs) xs = drop (length xs - lw) xs"
proof (induction xs)
  case Nil
  then show ?case by simp
next
  case (Cons e es)
  then show ?case
    by (auto simp: Suc_diff_le)
qed

lemma evictWalk_last:
  "xs \<noteq> [] \<Longrightarrow> fst (last xs) \<in> A \<Longrightarrow>
     evictWalk A lw n xs \<noteq> [] \<and> last (evictWalk A lw n xs) = last xs"
  by (induction xs arbitrary: n) auto


lemma prune_shape:
  assumes "hw < length (entries c)"
  shows "\<exists>pre suf. entries c = pre @ suf
           \<and> entries (prune A hw lw c) = pre @ filter (\<lambda>e. fst e \<in> A) suf
           \<and> (pre = [] \<or> length (entries (prune A hw lw c)) \<le> lw)
           \<and> min lw (length (entries c)) \<le> length (entries (prune A hw lw c))"
proof -
  let ?xs = "rev (entries c)" and ?n = "length (entries c)"
  let ?act = "\<lambda>e. fst e \<in> A" and ?inact = "\<lambda>e. fst e \<notin> A"
  from evictWalk_shape [of ?xs A lw ?n] obtain j where j: "j \<le> length ?xs"
    "evictWalk A lw ?n ?xs = filter ?act (take j ?xs) @ drop j ?xs"
    "j = length ?xs \<or> ?n - length (filter ?inact (take j ?xs)) \<le> lw"
    "min lw ?n \<le> ?n - length (filter ?inact (take j ?xs))"
    by blast
  let ?pre = "rev (drop j ?xs)" and ?suf = "rev (take j ?xs)"
  have e: "entries (prune A hw lw c) = rev (evictWalk A lw ?n ?xs)"
    using assms by (simp add: prune_def)
  have split: "entries c = ?pre @ ?suf"
    by (metis append_take_drop_id rev_append rev_rev_ident)
  have res: "entries (prune A hw lw c) = ?pre @ filter ?act ?suf"
    unfolding e j(2) by (simp add: rev_filter)
  have "length (filter ?act (take j ?xs)) + length (filter ?inact (take j ?xs)) = j"
    using sum_length_filter_compl [of ?act "take j ?xs"] j(1) by simp
  then have len: "length (entries (prune A hw lw c)) = ?n - length (filter ?inact (take j ?xs))"
    unfolding e j(2) using j(1) by simp
  have "?pre = [] \<or> length (entries (prune A hw lw c)) \<le> lw"
    using j(3) len by auto
  moreover have "min lw ?n \<le> length (entries (prune A hw lw c))"
    using j(4) len by simp
  ultimately show ?thesis
    using split res by blast
qed

lemma prune_none:
  assumes "hw < length (entries c)"
  shows "entries (prune {} hw lw c) = take lw (entries c)"
proof -
  have "entries (prune {} hw lw c) = rev (drop (length (entries c) - lw) (rev (entries c)))"
    using assms evictWalk_none [of lw "rev (entries c)"] by (simp add: prune_def)
  also have "\<dots> = take (length (entries c) - (length (entries c) - lw)) (entries c)"
    by (simp add: rev_drop)
  also have "\<dots> = take lw (entries c)"
    by (cases "lw \<le> length (entries c)") simp_all
  finally show ?thesis .
qed

text \<open>
  C7. \<open>prune\<close> leaves the cache as it is unless the entry count exceeds the high water
  mark. When it does, the entries split into a recent part that is kept untouched and a
  least recently touched part of which exactly the entries with a key outside the active
  keys are evicted; the walk goes on until the count is at most the low water mark or no
  entry is left to examine, and it never brings the count below the low water mark. With no
  active keys the entries kept are the \<open>lowWaterMark\<close> most recently touched ones: the
  evicted ones are exactly the least recently touched.
\<close>

theorem prune_evicts_least_recent:
  "(length (entries c) \<le> hw \<longrightarrow> prune A hw lw c = c)
   \<and> (hw < length (entries c) \<longrightarrow>
        (\<exists>pre suf. entries c = pre @ suf
           \<and> entries (prune A hw lw c) = pre @ filter (\<lambda>e. fst e \<in> A) suf
           \<and> (pre = [] \<or> length (entries (prune A hw lw c)) \<le> lw)
           \<and> min lw (length (entries c)) \<le> length (entries (prune A hw lw c))))
   \<and> (hw < length (entries c) \<longrightarrow>
        entries (prune {} hw lw c) = take lw (entries c)
      \<and> entries c = entries (prune {} hw lw c) @ drop lw (entries c))"
proof (intro conjI impI)
  assume "length (entries c) \<le> hw"
  then show "prune A hw lw c = c"
    by (simp add: prune_def)
next
  assume "hw < length (entries c)"
  then show "\<exists>pre suf. entries c = pre @ suf
           \<and> entries (prune A hw lw c) = pre @ filter (\<lambda>e. fst e \<in> A) suf
           \<and> (pre = [] \<or> length (entries (prune A hw lw c)) \<le> lw)
           \<and> min lw (length (entries c)) \<le> length (entries (prune A hw lw c))"
    by (rule prune_shape)
next
  assume a: "hw < length (entries c)"
  then show "entries (prune {} hw lw c) = take lw (entries c)"
    by (rule prune_none)
  then show "entries c = entries (prune {} hw lw c) @ drop lw (entries c)"
    by simp
qed

theorem prune_evicts_least_recent_witness:
  "length (entries cacheE) \<le> 5 \<and> prune {2} 5 2 cacheE = cacheE
   \<and> 3 < length (entries cacheE)
   \<and> entries (prune {2} 3 2 cacheE) = [(5, ()), (2, ())]
   \<and> (\<exists>pre suf. entries cacheE = pre @ suf
          \<and> entries (prune {2} 3 2 cacheE) = pre @ filter (\<lambda>e. fst e \<in> {2}) suf
          \<and> (pre = [] \<or> length (entries (prune {2} 3 2 cacheE)) \<le> 2)
          \<and> min 2 (length (entries cacheE)) \<le> length (entries (prune {2} 3 2 cacheE)))
   \<and> entries (prune {} 3 2 cacheE) = take 2 (entries cacheE)
   \<and> entries (prune {} 3 2 cacheE) = [(5, ()), (4, ())]"
proof -
  have h: "length (entries cacheE) \<le> 5" "3 < length (entries cacheE)"
    by (simp_all add: cacheE_def)
  from prune_evicts_least_recent [of cacheE 5 "{2}" 2] h
  have a: "prune {2} 5 2 cacheE = cacheE" by blast
  from prune_evicts_least_recent [of cacheE 3 "{2}" 2] h
  have b: "\<exists>pre suf. entries cacheE = pre @ suf
          \<and> entries (prune {2} 3 2 cacheE) = pre @ filter (\<lambda>e. fst e \<in> {2}) suf
          \<and> (pre = [] \<or> length (entries (prune {2} 3 2 cacheE)) \<le> 2)
          \<and> min 2 (length (entries cacheE)) \<le> length (entries (prune {2} 3 2 cacheE))"
    by blast
  from prune_evicts_least_recent [of cacheE 3 "{}" 2] h
  have c: "entries (prune {} 3 2 cacheE) = take 2 (entries cacheE)"
    by blast
  have d: "entries (prune {2} 3 2 cacheE) = [(5, ()), (2, ())]"
    by (simp add: prune_def cacheE_def)
  have e: "take 2 (entries cacheE) = [(5, ()), (4, ())]"
    by (simp add: cacheE_def)
  from h a b c d e show ?thesis by simp
qed

section \<open>C6: the first key after a change of zoom\<close>

lemma prune_first:
  assumes "entries c = (k, v) # es" "k \<in> A"
  shows "peekFirstKey (prune A hw lw c) = Inr k"
proof (cases "hw < length (entries c)")
  case False
  with assms show ?thesis by (simp add: prune_def peekFirstKey_def)
next
  case True
  define ys where "ys = evictWalk A lw (length (entries c)) (rev (entries c))"
  have "rev (entries c) \<noteq> []" "fst (last (rev (entries c))) \<in> A" "last (rev (entries c)) = (k, v)"
    using assms by simp_all
  with evictWalk_last [of "rev (entries c)" A lw "length (entries c)"]
  have w: "ys \<noteq> []" "last ys = (k, v)"
    unfolding ys_def by simp_all
  define zs where "zs = butlast ys"
  have "ys = zs @ [(k, v)]"
    unfolding zs_def using w by (metis append_butlast_last_id)
  then have "rev ys = (k, v) # rev zs"
    by simp
  moreover have "entries (prune A hw lw c) = rev ys"
    using True by (simp add: prune_def ys_def)
  ultimately have "entries (prune A hw lw c) = (k, v) # rev zs"
    by (rule back_subst [where P = "\<lambda>r. entries (prune A hw lw c) = r", rotated])
  then show ?thesis
    by (simp add: peekFirstKey_def)
qed

lemma requestTiles_snoc:
  "requestTiles load (ts @ [(z, x, y)]) c =
     set_entry (toKey z x y) (load (z, x, y)) (requestTiles load ts c)"
  by (simp add: requestTiles_def)

lemma first_key_after_requests:
  assumes "tiles \<noteq> []" "\<forall>t \<in> set tiles. fst t = z"
    and "(\<lambda>(z, x, y). toKey z x y) ` set tiles \<subseteq> A"
  shows "\<exists>x y. peekFirstKey (prune A hw lw (requestTiles load tiles c)) = Inr (toKey z x y)"
proof -
  from assms(1) obtain ts t where t: "tiles = ts @ [t]"
    by (cases tiles rule: rev_cases) auto
  obtain z' x y where xy: "t = (z', x, y)" by (cases t)
  have z': "z' = z"
    using assms(2) by (simp add: t xy)
  have tiles: "tiles = ts @ [(z, x, y)]"
    by (simp add: t xy z')
  have inA: "toKey z x y \<in> A"
    using assms(3) unfolding tiles by simp
  have e: "entries (requestTiles load tiles c) =
      (toKey z x y, load (z, x, y)) #
        filter (\<lambda>e. fst e \<noteq> toKey z x y) (entries (requestTiles load ts c))"
    unfolding tiles requestTiles_snoc by (simp add: set_entry_def)
  from prune_first [OF e inA, of hw lw] show ?thesis
    by (intro exI)
qed

text \<open>
  C6. Whatever the cache holds from an earlier zoom level, after a frame that requests the
  tiles of the new zoom level (at least one) and then runs \<open>expireCache\<close> with their keys,
  \<open>peekFirstKey\<close> returns the key of a tile of the new zoom level, and \<open>fromKey\<close> decodes it
  to a coordinate with that zoom. The same holds for \<open>prune\<close> with any water marks and any
  set of active keys that holds the keys of the requested tiles.
\<close>

theorem first_key_is_of_new_zoom:
  "(tiles \<noteq> [] \<and> (\<forall>t \<in> set tiles. fst t = z)
      \<longrightarrow> (\<exists>x y. peekFirstKey (renderFrame load tiles c) = Inr (toKey z x y)
                 \<and> fromKey (toKey z x y) = Inr (z, x, y)))
   \<and> (tiles \<noteq> [] \<and> (\<forall>t \<in> set tiles. fst t = z \<and> (case t of (z, x, y) \<Rightarrow> toKey z x y) \<in> A)
      \<longrightarrow> (\<exists>x y. peekFirstKey (prune A hw lw (requestTiles load tiles c)) = Inr (toKey z x y)
                 \<and> fromKey (toKey z x y) = Inr (z, x, y)))"
proof (intro conjI impI)
  assume a: "tiles \<noteq> [] \<and> (\<forall>t \<in> set tiles. fst t = z)"
  then have "\<exists>x y. peekFirstKey (prune (set (map (\<lambda>(z, x, y). toKey z x y) tiles))
        (capacity (requestTiles load tiles c)) (capacity (requestTiles load tiles c))
        (requestTiles load tiles c)) = Inr (toKey z x y)"
    by (intro first_key_after_requests) auto
  then show "\<exists>x y. peekFirstKey (renderFrame load tiles c) = Inr (toKey z x y)
                 \<and> fromKey (toKey z x y) = Inr (z, x, y)"
    by (simp add: renderFrame_def expireCache_def fromKey_toKey)
next
  assume a: "tiles \<noteq> [] \<and> (\<forall>t \<in> set tiles. fst t = z \<and> (case t of (z, x, y) \<Rightarrow> toKey z x y) \<in> A)"
  then have "\<exists>x y. peekFirstKey (prune A hw lw (requestTiles load tiles c)) = Inr (toKey z x y)"
    by (intro first_key_after_requests) auto
  then show "\<exists>x y. peekFirstKey (prune A hw lw (requestTiles load tiles c)) = Inr (toKey z x y)
                 \<and> fromKey (toKey z x y) = Inr (z, x, y)"
    by (simp add: fromKey_toKey)
qed




lemma keys4: "toKey 4 7 7 = ''4/7/7''" "toKey 4 8 7 = ''4/8/7''"
  by (simp_all add: toKey_def showInt_def showNat.simps digit_def)

lemma req4:
  "requestTiles (\<lambda>t. 1) tiles4 cache0 =
     \<lparr>entries = [(''4/8/7'', 1), (''4/7/7'', 1), (''0/0/0'', 0)], capacity = 2\<rparr>"
  by (simp add: requestTiles_def tiles4_def cache0_def set_entry_def keys4)

lemma frame4:
  "renderFrame (\<lambda>t. 1) tiles4 cache0 =
     \<lparr>entries = [(''4/8/7'', 1), (''4/7/7'', 1)], capacity = 2\<rparr>"
  unfolding renderFrame_def req4
  by (simp add: expireCache_def prune_def tiles4_def keys4)

theorem first_key_is_of_new_zoom_witness:
  "tiles4 \<noteq> [] \<and> list_all (\<lambda>t. fst t = 4) tiles4
   \<and> peekFirstKey cache0 = Inr ''0/0/0'' \<and> fromKey ''0/0/0'' = Inr (0, 0, 0)
   \<and> peekFirstKey (renderFrame (\<lambda>t. 1) tiles4 cache0) = Inr ''4/8/7''
   \<and> fromKey ''4/8/7'' = Inr (4, 8, 7)
   \<and> (\<exists>x y. peekFirstKey (renderFrame (\<lambda>t. 1) tiles4 cache0) = Inr (toKey 4 x y)
          \<and> fromKey (toKey 4 x y) = Inr (4, x, y))"
proof -
  have h: "tiles4 \<noteq> []" "list_all (\<lambda>t. fst t = 4) tiles4" "\<forall>t \<in> set tiles4. fst t = 4"
    by (simp_all add: tiles4_def)
  from first_key_is_of_new_zoom [of tiles4 4 "\<lambda>t. 1" cache0] h
  have a: "\<exists>x y. peekFirstKey (renderFrame (\<lambda>t. 1) tiles4 cache0) = Inr (toKey 4 x y)
          \<and> fromKey (toKey 4 x y) = Inr (4, x, y)"
    by blast
  have b: "peekFirstKey cache0 = Inr ''0/0/0''" "fromKey ''0/0/0'' = Inr (0, 0, 0)"
    "fromKey ''4/8/7'' = Inr (4, 8, 7)"
    by (simp_all add: peekFirstKey_def cache0_def fromKey_def parseInt_def isNumeral_def isDigit_def
        parseNat_def digitVal_def)
  have c: "peekFirstKey (renderFrame (\<lambda>t. 1) tiles4 cache0) = Inr ''4/8/7''"
    using frame4 by (simp add: peekFirstKey_def)
  from h(1,2) a b c show ?thesis by blast
qed

end
